theory Spec2Isabelle
  imports Complex_Main "HOL-Library.AList" "HOL-Library.Multiset"
    "HOL-Library.Char_ord" "HOL-Library.List_Lexorder"
begin

section \<open>Tables\<close>

text \<open>
  The processing class of \<^verbatim>\<open>web_app.py\<close> works on pandas data frames. A cell is a
  missing value (NaN, NaT and pd.NA are not told apart: all three are skipped by sums,
  filled by \<^verbatim>\<open>ffill\<close> and reported by \<^verbatim>\<open>isna\<close>), a number, a text, or the
  timestamp that \<^verbatim>\<open>load_data\<close> stores in the date column. The library is
  modelled as pandas 2 behaves.

  A number is the value of a finite binary float (or of an integer), which is a
  rational: the amount 99.995 of a file is the cell of the float nearest to it.
  Comparisons, absolute values and the printing of a float are exact on these values.
  Sums and differences of floats are rounded, and the order in which a library sum
  adds depends on the library; they are parameters of the model, so that nothing proved
  here depends on how they round. Infinities are not modelled.

  A row is a dictionary from column names to cells and a frame carries its column
  list and its rows, each with its index label. A cell a row does not hold reads as
  missing, as \<^verbatim>\<open>reindex\<close> fills it.

  The Hebrew column names of the program are written with the output vocabulary of the
  specification: transaction, transaction date, product name, debit, credit,
  debit account, credit account, serial number, order date.
\<close>

datatype cell = NA | Num rat | Str string | Timestamp nat nat nat

datatype error = KeyError | TypeError | ValueError

type_synonym row = "(string \<times> cell) list"

record frame =
  columns :: "string list"
  rows :: "(nat \<times> row) list"

text \<open>
  What pandas and Python do with one text value is not part of the repository; the
  conversions the program relies on are parameters of the model.
\<close>

record runtime =
  to_numeric_text :: "string \<Rightarrow> rat option"
    \<comment> \<open>\<^verbatim>\<open>pd.to_numeric(errors="coerce")\<close> on a text: \<open>None\<close> is NaN\<close>
  to_datetime_text :: "string \<Rightarrow> (nat \<times> nat \<times> nat) option"
    \<comment> \<open>\<^verbatim>\<open>pd.to_datetime(errors='coerce')\<close> on a text: year, month, day; \<open>None\<close> is NaT\<close>
  to_datetime_num :: "rat \<Rightarrow> (nat \<times> nat \<times> nat) option"
    \<comment> \<open>the same on a number\<close>
  int_of_text :: "string \<Rightarrow> int option"
    \<comment> \<open>Python's \<^verbatim>\<open>int(s)\<close>: \<open>None\<close> is ValueError\<close>
  str_of_float :: "rat \<Rightarrow> string"
    \<comment> \<open>Python's \<^verbatim>\<open>str\<close> of a float\<close>
  float_add :: "rat \<Rightarrow> rat \<Rightarrow> rat"
    \<comment> \<open>the sum of two floats\<close>
  float_sub :: "rat \<Rightarrow> rat \<Rightarrow> rat"
    \<comment> \<open>the difference of two floats\<close>
  series_sum :: "rat list \<Rightarrow> rat"
    \<comment> \<open>\<^verbatim>\<open>Series.sum()\<close> of two or more floats\<close>
  group_sum :: "rat list \<Rightarrow> rat"
    \<comment> \<open>the sum of a group of \<^verbatim>\<open>groupby(...).sum()\<close>, of two or more floats\<close>

abbreviation col_payment_ref :: string where
  "col_payment_ref \<equiv> ''InstallmentPaymentExtRef''"

abbreviation col_product_ref :: string where
  "col_product_ref \<equiv> ''InstallmentProductExtRef''"

definition cell_of :: "row \<Rightarrow> string \<Rightarrow> cell" where
  "cell_of r c = (case map_of r c of None \<Rightarrow> NA | Some v \<Rightarrow> v)"

definition index :: "frame \<Rightarrow> nat list" where
  "index df = map fst (rows df)"

definition column :: "frame \<Rightarrow> string \<Rightarrow> error + cell list" where
  "column df c =
     (if c \<in> set (columns df) then Inr (map (\<lambda>ir. cell_of (snd ir) c) (rows df))
      else Inl KeyError)"

definition select :: "bool list \<Rightarrow> 'a list \<Rightarrow> 'a list" where
  "select bs xs = map snd (filter fst (zip bs xs))"

definition isna :: "cell \<Rightarrow> bool" where
  "isna c = (c = NA)"

subsection \<open>Decimal text of integers\<close>

definition digit_char :: "nat \<Rightarrow> char" where
  "digit_char d = ''0123456789'' ! d"

fun str_of_nat :: "nat \<Rightarrow> string" where
  "str_of_nat n =
     (if n < 10 then [digit_char n] else str_of_nat (n div 10) @ [digit_char (n mod 10)])"

definition str_of_int :: "int \<Rightarrow> string" where
  "str_of_int i = (if i < 0 then CHR ''-'' # str_of_nat (nat (- i)) else str_of_nat (nat i))"

section \<open>Segmenter: \<^verbatim>\<open>split_data\<close>\<close>

definition replace_missing :: "cell \<Rightarrow> cell" where
  "replace_missing c =
     (if c = Str '''' \<or> c = Str ''nan'' \<or> c = Str ''NaN'' then NA else c)"

fun ffill_from :: "cell \<Rightarrow> cell list \<Rightarrow> cell list" where
  "ffill_from prev [] = []"
| "ffill_from prev (c # cs) =
     (if isna c then prev # ffill_from prev cs else c # ffill_from c cs)"

definition ffill :: "cell list \<Rightarrow> cell list" where
  "ffill cs = ffill_from NA cs"

text \<open>
  \<^verbatim>\<open>pd.to_numeric(errors="coerce")\<close> on one cell: what is no number becomes missing.
  The reference columns hold numbers, texts and missing values; a timestamp, which
  only the date column holds, is taken as no number.
\<close>

definition to_numeric :: "runtime \<Rightarrow> cell \<Rightarrow> cell" where
  "to_numeric rt c =
     (case c of
        NA \<Rightarrow> NA
      | Num q \<Rightarrow> Num q
      | Str s \<Rightarrow> (case to_numeric_text rt s of None \<Rightarrow> NA | Some q \<Rightarrow> Num q)
      | Timestamp y m d \<Rightarrow> NA)"

text \<open>
  \<^verbatim>\<open>astype("Int64")\<close> keeps a missing value, turns an integral number into that integer
  and raises TypeError on a number that is not an integer of 64 bits.
\<close>

definition int64_of :: "cell \<Rightarrow> error + int option" where
  "int64_of c =
     (case c of
        Num q \<Rightarrow>
          (if of_int \<lfloor>q\<rfloor> = q \<and> - (2 ^ 63) \<le> \<lfloor>q\<rfloor> \<and> \<lfloor>q\<rfloor> < 2 ^ 63 then Inr (Some \<lfloor>q\<rfloor>)
           else Inl TypeError)
      | _ \<Rightarrow> Inr None)"

fun astype_Int64 :: "cell list \<Rightarrow> error + int option list" where
  "astype_Int64 [] = Inr []"
| "astype_Int64 (c # cs) =
     (case int64_of c of
        Inl e \<Rightarrow> Inl e
      | Inr k \<Rightarrow> (case astype_Int64 cs of Inl e \<Rightarrow> Inl e | Inr ks \<Rightarrow> Inr (k # ks)))"

definition astype_str :: "int option \<Rightarrow> string" where
  "astype_str k = (case k of None \<Rightarrow> ''<NA>'' | Some i \<Rightarrow> str_of_int i)"

definition block_key :: "runtime \<Rightarrow> frame \<Rightarrow> error + string list" where
  "block_key rt df =
     (case column df col_payment_ref of
        Inl e \<Rightarrow> Inl e
      | Inr ref \<Rightarrow>
          (case astype_Int64 (map (to_numeric rt) (ffill (map replace_missing ref))) of
             Inl e \<Rightarrow> Inl e
           | Inr ks \<Rightarrow> Inr (map astype_str ks)))"

fun cumsum_from :: "nat \<Rightarrow> bool list \<Rightarrow> nat list" where
  "cumsum_from acc [] = []"
| "cumsum_from acc (b # bs) =
     (acc + (if b then 1 else 0)) # cumsum_from (acc + (if b then 1 else 0)) bs"

definition cumsum :: "bool list \<Rightarrow> nat list" where
  "cumsum bs = cumsum_from 0 bs"

definition transform_any :: "nat list \<Rightarrow> bool list \<Rightarrow> bool list" where
  "transform_any seg bs = map (\<lambda>s. list_ex (\<lambda>sb. fst sb = s \<and> snd sb) (zip seg bs)) seg"

definition set_cells :: "string \<Rightarrow> cell list \<Rightarrow> (nat \<times> row) list \<Rightarrow> (nat \<times> row) list" where
  "set_cells c vs rs = map (\<lambda>(v, ir). (fst ir, AList.update c v (snd ir))) (zip vs rs)"

definition set_column :: "frame \<Rightarrow> string \<Rightarrow> cell list \<Rightarrow> frame" where
  "set_column df c vs =
     \<lparr>columns = (if c \<in> set (columns df) then columns df else columns df @ [c]),
      rows = set_cells c vs (rows df)\<rparr>"

record buckets =
  without_advertisement :: frame
  advertisment :: frame
  rest :: frame

text \<open>The first half of \<^verbatim>\<open>split_data\<close>: the rows of key 79991 and the others.\<close>

definition split_79991 :: "runtime \<Rightarrow> frame \<Rightarrow> error + frame \<times> frame" where
  "split_79991 rt df =
     (case block_key rt df of
        Inl e \<Rightarrow> Inl e
      | Inr key \<Rightarrow>
          Inr (df\<lparr>rows := select (map (\<lambda>k. k = ''79991'') key) (rows df)\<rparr>,
               df\<lparr>rows := select (map (\<lambda>k. k \<noteq> ''79991'') key) (rows df)\<rparr>))"

text \<open>
  The second half: the product reference of the 79991 rows is coerced to a number and
  written back, a segment starts at each row where it is missing, and a segment
  with a 4118 goes to the advertisement bucket as a whole. The result is the pair of
  \<^verbatim>\<open>advertisment\<close> and \<^verbatim>\<open>without_advertisement\<close>.
\<close>

definition seg_has_4118 :: "cell list \<Rightarrow> bool list" where
  "seg_has_4118 code = transform_any (cumsum (map isna code)) (map (\<lambda>c. c = Num 4118) code)"

text \<open>The variable \<^verbatim>\<open>code\<close> of \<^verbatim>\<open>split_data\<close>, for the frame of the 79991 rows.\<close>

definition coerced :: "runtime \<Rightarrow> frame \<Rightarrow> cell list" where
  "coerced rt df = map (\<lambda>ir. to_numeric rt (cell_of (snd ir) col_product_ref)) (rows df)"

definition split_segments :: "runtime \<Rightarrow> frame \<Rightarrow> error + frame \<times> frame" where
  "split_segments rt only_79991 =
     (case column only_79991 col_product_ref of
        Inl e \<Rightarrow> Inl e
      | Inr raw \<Rightarrow>
          (let code = map (to_numeric rt) raw;
               only_79991 = set_column only_79991 col_product_ref code
           in Inr (only_79991\<lparr>rows := select (seg_has_4118 code) (rows only_79991)\<rparr>,
                   only_79991\<lparr>rows := select (map Not (seg_has_4118 code)) (rows only_79991)\<rparr>)))"

definition split_data :: "runtime \<Rightarrow> frame \<Rightarrow> error + buckets" where
  "split_data rt df =
     (case split_79991 rt df of
        Inl e \<Rightarrow> Inl e
      | Inr p \<Rightarrow>
          (case split_segments rt (fst p) of
             Inl e \<Rightarrow> Inl e
           | Inr q \<Rightarrow>
               Inr \<lparr>without_advertisement = snd q, advertisment = fst q, rest = snd p\<rparr>))"

section \<open>Column Normalizer: \<^verbatim>\<open>prepare_columns\<close>\<close>

abbreviation col_transaction :: string where
  "col_transaction \<equiv> ''transaction''"

abbreviation col_date :: string where
  "col_date \<equiv> ''transaction date''"

abbreviation col_product :: string where
  "col_product \<equiv> ''product name''"

abbreviation col_debit :: string where
  "col_debit \<equiv> ''debit''"

abbreviation col_credit :: string where
  "col_credit \<equiv> ''credit''"

abbreviation col_debit_account :: string where
  "col_debit_account \<equiv> ''debit account''"

abbreviation col_credit_account :: string where
  "col_credit_account \<equiv> ''credit account''"

abbreviation col_serial :: string where
  "col_serial \<equiv> ''serial number''"

abbreviation col_order_date :: string where
  "col_order_date \<equiv> ''order date''"

definition columns_to_drop :: "string list" where
  "columns_to_drop = [''Installment Ticket Id'', ''InstallmentValueDate'', ''Installments'']"

definition column_mapping :: "(string \<times> string) list" where
  "column_mapping =
     [(''InstallmentTransactionId'', col_transaction),
      (''InstallmentDate'', col_date),
      (''InstallmentProducts'', col_product),
      (''InstallmentPaymentPrice'', col_debit),
      (''InstallmentProductPrice'', col_credit),
      (col_payment_ref, col_debit_account),
      (col_product_ref, col_credit_account)]"

definition drop_column :: "string \<Rightarrow> frame \<Rightarrow> frame" where
  "drop_column c df =
     (if c \<in> set (columns df)
      then \<lparr>columns = removeAll c (columns df),
            rows = map (\<lambda>ir. (fst ir, AList.delete c (snd ir))) (rows df)\<rparr>
      else df)"

definition rename_col :: "string \<Rightarrow> string" where
  "rename_col c = (case map_of column_mapping c of None \<Rightarrow> c | Some c' \<Rightarrow> c')"

definition rename :: "frame \<Rightarrow> frame" where
  "rename df =
     \<lparr>columns = map rename_col (columns df),
      rows = map (\<lambda>ir. (fst ir, map (\<lambda>kv. (rename_col (fst kv), snd kv)) (snd ir))) (rows df)\<rparr>"

definition reset_index :: "frame \<Rightarrow> frame" where
  "reset_index df = df\<lparr>rows := zip [0..<length (rows df)] (map snd (rows df))\<rparr>"

definition drop_other_payment :: "frame \<Rightarrow> frame" where
  "drop_other_payment df =
     (if col_product \<in> set (columns df)
      then reset_index
             (df\<lparr>rows := filter (\<lambda>ir. cell_of (snd ir) col_product \<noteq> Str ''Other Payment'')
                             (rows df)\<rparr>)
      else df)"

definition pad2 :: "nat \<Rightarrow> string" where
  "pad2 n = (if n < 10 then CHR ''0'' # str_of_nat n else str_of_nat n)"

definition strftime :: "nat \<Rightarrow> nat \<Rightarrow> nat \<Rightarrow> string" where
  "strftime y m d = str_of_nat y @ ''-'' @ pad2 m @ ''-'' @ pad2 d"

text \<open>
  \<^verbatim>\<open>pd.to_datetime(col, errors='coerce').dt.strftime('%Y-%m-%d')\<close> on one cell: a timestamp
  is printed, a missing value stays missing, a text or a number is converted by pandas
  first.
\<close>

definition format_date :: "runtime \<Rightarrow> cell \<Rightarrow> cell" where
  "format_date rt c =
     (case c of
        NA \<Rightarrow> NA
      | Timestamp y m d \<Rightarrow> Str (strftime y m d)
      | Str s \<Rightarrow> (case to_datetime_text rt s of
                    None \<Rightarrow> NA
                  | Some ymd \<Rightarrow> Str (strftime (fst ymd) (fst (snd ymd)) (snd (snd ymd))))
      | Num q \<Rightarrow> (case to_datetime_num rt q of
                    None \<Rightarrow> NA
                  | Some ymd \<Rightarrow> Str (strftime (fst ymd) (fst (snd ymd)) (snd (snd ymd)))))"

definition format_dates :: "runtime \<Rightarrow> frame \<Rightarrow> frame" where
  "format_dates rt df =
     (if col_date \<in> set (columns df)
      then set_column df col_date (map (\<lambda>ir. format_date rt (cell_of (snd ir) col_date)) (rows df))
      else df)"

definition reindex :: "string list \<Rightarrow> frame \<Rightarrow> frame" where
  "reindex cols df =
     \<lparr>columns = cols,
      rows = map (\<lambda>ir. (fst ir,
                   map (\<lambda>c. (c, if c \<in> set (columns df) then cell_of (snd ir) c else NA)) cols))
               (rows df)\<rparr>"

definition insert_first :: "string \<Rightarrow> cell list \<Rightarrow> frame \<Rightarrow> frame" where
  "insert_first c vs df =
     \<lparr>columns = c # columns df,
      rows = map (\<lambda>vir. (fst (snd vir), (c, fst vir) # snd (snd vir))) (zip vs (rows df))\<rparr>"

text \<open>
  \<^verbatim>\<open>Series.max()\<close>. Values of different kinds do not compare. In a column of numbers
  or of timestamps the missing values are skipped. In a column that holds a text the
  missing values are not skipped: pandas 2 puts a float in their place before it
  compares, so a text beside a missing value raises TypeError.
\<close>

fun cell_max :: "cell \<Rightarrow> cell \<Rightarrow> error + cell" where
  "cell_max (Str a) (Str b) = Inr (Str (max a b))"
| "cell_max (Num a) (Num b) = Inr (Num (max a b))"
| "cell_max (Timestamp y m d) (Timestamp y' m' d') =
     Inr (if y < y' \<or> (y = y' \<and> (m < m' \<or> (m = m' \<and> d < d')))
          then Timestamp y' m' d' else Timestamp y m d)"
| "cell_max _ _ = Inl TypeError"

fun max_from :: "cell \<Rightarrow> cell list \<Rightarrow> error + cell" where
  "max_from v [] = Inr v"
| "max_from v (c # cs) =
     (case cell_max v c of Inl e \<Rightarrow> Inl e | Inr v' \<Rightarrow> max_from v' cs)"

definition is_text :: "cell \<Rightarrow> bool" where
  "is_text c = (case c of Str s \<Rightarrow> True | _ \<Rightarrow> False)"

definition series_max :: "cell list \<Rightarrow> error + cell" where
  "series_max cs =
     (case (if list_ex is_text cs then cs else filter (\<lambda>c. \<not> isna c) cs) of
        [] \<Rightarrow> Inr NA
      | v # vs \<Rightarrow> max_from v vs)"

definition number_rows :: "frame \<Rightarrow> frame" where
  "number_rows df =
     insert_first col_serial (map (\<lambda>n. Num (of_nat n)) [1..<length (rows df) + 1])
       (drop_column col_serial df)"

definition add_order_date :: "frame \<Rightarrow> error + frame" where
  "add_order_date df =
     (if col_date \<in> set (columns df) \<and> length (rows df) > 0
      then (let dates = map (\<lambda>ir. cell_of (snd ir) col_date) (rows df)
            in case (if \<not> list_all isna dates then series_max dates else Inr (Str '''')) of
                 Inl e \<Rightarrow> Inl e
               | Inr max_date_str \<Rightarrow>
                   Inr (set_column df col_order_date (map (\<lambda>_. max_date_str) (rows df))))
      else Inr df)"

text \<open>
  The first part of \<^verbatim>\<open>prepare_columns\<close>: columns dropped and renamed, the Other
  Payment rows removed from the rest bucket, dates formatted, and the columns of the
  advertisement and rest buckets aligned with those of the first bucket.
\<close>

definition align_columns :: "runtime \<Rightarrow> buckets \<Rightarrow> buckets" where
  "align_columns rt s =
     (let dropped = (\<lambda>df. fold drop_column columns_to_drop df);
          wa = rename (dropped (without_advertisement s));
          ad = rename (dropped (advertisment s));
          re = drop_other_payment (rename (dropped (rest s)));
          wa = format_dates rt wa;
          ad = format_dates rt ad;
          re = format_dates rt re;
          all_columns = columns wa
      in \<lparr>without_advertisement = wa,
          advertisment = reindex all_columns ad,
          rest = reindex all_columns re\<rparr>)"

text \<open>The body of the last loop: serial numbers, then the order date.\<close>

definition number_and_date :: "frame \<Rightarrow> error + frame" where
  "number_and_date df = add_order_date (number_rows df)"

definition prepare_columns :: "runtime \<Rightarrow> buckets \<Rightarrow> error + buckets" where
  "prepare_columns rt s =
     (let a = align_columns rt s
      in case number_and_date (without_advertisement a) of
           Inl e \<Rightarrow> Inl e
         | Inr wa \<Rightarrow>
             (case number_and_date (advertisment a) of
                Inl e \<Rightarrow> Inl e
              | Inr ad \<Rightarrow>
                  (case number_and_date (rest a) of
                     Inl e \<Rightarrow> Inl e
                   | Inr re \<Rightarrow>
                       Inr \<lparr>without_advertisement = wa, advertisment = ad, rest = re\<rparr>)))"

section \<open>Balance Validator: \<^verbatim>\<open>get_balance_validation\<close>\<close>

text \<open>
  A sum of a column skips missing values; a text or a timestamp among the amounts makes
  the arithmetic of the validator raise TypeError. The sum of no float is zero and the
  sum of one float is that float; a sum of more floats is the library's.
\<close>

fun numbers :: "cell list \<Rightarrow> error + rat list" where
  "numbers [] = Inr []"
| "numbers (c # cs) =
     (case c of
        NA \<Rightarrow> numbers cs
      | Num q \<Rightarrow> (case numbers cs of Inl e \<Rightarrow> Inl e | Inr qs \<Rightarrow> Inr (q # qs))
      | _ \<Rightarrow> Inl TypeError)"

definition float_sum :: "(rat list \<Rightarrow> rat) \<Rightarrow> rat list \<Rightarrow> rat" where
  "float_sum library_sum qs = (case qs of [] \<Rightarrow> 0 | [q] \<Rightarrow> q | _ \<Rightarrow> library_sum qs)"

definition sum_cells :: "(rat list \<Rightarrow> rat) \<Rightarrow> cell list \<Rightarrow> error + rat" where
  "sum_cells library_sum cs =
     (case numbers cs of Inl e \<Rightarrow> Inl e | Inr qs \<Rightarrow> Inr (float_sum library_sum qs))"

text \<open>
  The literal \<^verbatim>\<open>0.01\<close> of the program is the float nearest to one hundredth, a little
  above it.
\<close>

definition tolerance :: rat where
  "tolerance = 5764607523034235 / 2 ^ 59"

text \<open>
  \<^verbatim>\<open>groupby\<close> drops the rows whose key is missing and lists the groups in the order
  of their keys. Keys of one column are of one kind; the order between kinds is fixed
  here only to make the order total.
\<close>

fun cell_rank :: "cell \<Rightarrow> nat" where
  "cell_rank NA = 0"
| "cell_rank (Num q) = 1"
| "cell_rank (Str s) = 2"
| "cell_rank (Timestamp y m d) = 3"

fun cell_le :: "cell \<Rightarrow> cell \<Rightarrow> bool" where
  "cell_le (Num a) (Num b) = (a \<le> b)"
| "cell_le (Str a) (Str b) = (a \<le> b)"
| "cell_le (Timestamp y m d) (Timestamp y' m' d') =
     (y < y' \<or> (y = y' \<and> (m < m' \<or> (m = m' \<and> d \<le> d'))))"
| "cell_le a b = (cell_rank a \<le> cell_rank b)"

fun insert_key :: "('k \<Rightarrow> 'k \<Rightarrow> bool) \<Rightarrow> 'k \<Rightarrow> 'k list \<Rightarrow> 'k list" where
  "insert_key le k [] = [k]"
| "insert_key le k (x # xs) = (if le k x then k # x # xs else x # insert_key le k xs)"

definition group_keys :: "('k \<Rightarrow> 'k \<Rightarrow> bool) \<Rightarrow> 'k list \<Rightarrow> 'k list" where
  "group_keys le ks = foldr (insert_key le) (remdups ks) []"

record txn_balance =
  txn :: cell
  debit :: rat
  credit :: rat
  difference :: rat

fun collect :: "(error + 'a) list \<Rightarrow> error + 'a list" where
  "collect [] = Inr []"
| "collect (x # xs) =
     (case x of
        Inl e \<Rightarrow> Inl e
      | Inr v \<Rightarrow> (case collect xs of Inl e \<Rightarrow> Inl e | Inr vs \<Rightarrow> Inr (v # vs)))"






definition column_sum :: "runtime \<Rightarrow> frame \<Rightarrow> string \<Rightarrow> error + rat" where
  "column_sum rt df c =
     (case column df c of Inl e \<Rightarrow> Inl e | Inr cs \<Rightarrow> sum_cells (series_sum rt) cs)"



section \<open>Summary Builder: \<^verbatim>\<open>create_excel_summary\<close>\<close>

text \<open>
  Python's \<^verbatim>\<open>max\<close> over the list of date cells keeps the first element unless a later
  one is greater; a missing value is the float NaN (or NaT among timestamps), which is
  greater than nothing and below nothing, and a text does not compare with a float.
\<close>

fun py_gt :: "cell \<Rightarrow> cell \<Rightarrow> error + bool" where
  "py_gt (Str a) (Str b) = Inr (a > b)"
| "py_gt (Num a) (Num b) = Inr (a > b)"
| "py_gt (Num a) NA = Inr False"
| "py_gt NA (Num b) = Inr False"
| "py_gt NA NA = Inr False"
| "py_gt (Timestamp y m d) (Timestamp y' m' d') =
     Inr (y' < y \<or> (y' = y \<and> (m' < m \<or> (m' = m \<and> d' < d))))"
| "py_gt (Timestamp y m d) NA = Inr False"
| "py_gt NA (Timestamp y m d) = Inr False"
| "py_gt _ _ = Inl TypeError"

fun py_max_from :: "cell \<Rightarrow> cell list \<Rightarrow> error + cell" where
  "py_max_from v [] = Inr v"
| "py_max_from v (c # cs) =
     (case py_gt c v of Inl e \<Rightarrow> Inl e | Inr b \<Rightarrow> py_max_from (if b then c else v) cs)"

fun split_on :: "char \<Rightarrow> string \<Rightarrow> string list" where
  "split_on sep [] = [[]]"
| "split_on sep (c # cs) =
     (if c = sep then [] # split_on sep cs
      else (case split_on sep cs of [] \<Rightarrow> [[c]] | p # ps \<Rightarrow> (c # p) # ps))"

definition truthy :: "cell \<Rightarrow> bool" where
  "truthy c = (case c of Str s \<Rightarrow> s \<noteq> [] | Num q \<Rightarrow> q \<noteq> 0 | _ \<Rightarrow> True)"

definition py_str :: "runtime \<Rightarrow> cell \<Rightarrow> string" where
  "py_str rt c =
     (case c of
        Str s \<Rightarrow> s
      | NA \<Rightarrow> ''nan''
      | Num q \<Rightarrow> str_of_float rt q
      | Timestamp y m d \<Rightarrow> strftime y m d @ '' 00:00:00'')"

definition command_date :: "frame \<Rightarrow> error + cell" where
  "command_date df =
     (if length (rows df) > 0
      then (case column df col_date of
              Inl e \<Rightarrow> Inl e
            | Inr all_dates \<Rightarrow>
                (case all_dates of
                   [] \<Rightarrow> Inr (Str '''')
                 | d # ds \<Rightarrow>
                     (case py_max_from d ds of
                        Inl e \<Rightarrow> Inl e
                      | Inr max_date_str \<Rightarrow>
                          Inr (if truthy max_date_str \<and> max_date_str \<noteq> Str ''''
                               then (case max_date_str of
                                       Str s \<Rightarrow>
                                         (case split_on CHR ''-'' s of
                                            [p0, p1, p2] \<Rightarrow> Str (p2 @ ''/'' @ p1 @ ''/'' @ p0)
                                          | _ \<Rightarrow> max_date_str)
                                     | _ \<Rightarrow> max_date_str)
                               else Str ''''))))
      else Inr (Str ''''))"

subsection \<open>Number formatting \<^verbatim>\<open>{:,.0f}\<close>\<close>

definition round_half_even :: "rat \<Rightarrow> int" where
  "round_half_even q =
     (let f = \<lfloor>q\<rfloor>; r = q - of_int f
      in if r < 1 / 2 then f else if r > 1 / 2 then f + 1 else if even f then f else f + 1)"

fun commas_rev :: "string \<Rightarrow> string" where
  "commas_rev (a # b # c # d # ds) = a # b # c # CHR '','' # commas_rev (d # ds)"
| "commas_rev ds = ds"

definition format_thousands :: "rat \<Rightarrow> string" where
  "format_thousands q =
     (if q < 0 then ''-'' else '''')
       @ rev (commas_rev (rev (str_of_nat (nat (round_half_even \<bar>q\<bar>)))))"

subsection \<open>Revenue groups\<close>

definition gt_zero :: "cell \<Rightarrow> error + bool" where
  "gt_zero c = (case c of NA \<Rightarrow> Inr False | Num q \<Rightarrow> Inr (q > 0) | _ \<Rightarrow> Inl TypeError)"

definition key_le :: "cell \<times> cell \<Rightarrow> cell \<times> cell \<Rightarrow> bool" where
  "key_le k k' = (if fst k = fst k' then cell_le (snd k) (snd k') else cell_le (fst k) (fst k'))"

definition group_key :: "nat \<times> row \<Rightarrow> cell \<times> cell" where
  "group_key ir = (cell_of (snd ir) col_credit_account, cell_of (snd ir) col_product)"

definition revenue_data :: "runtime \<Rightarrow> frame \<Rightarrow> error + ((cell \<times> cell) \<times> rat) list" where
  "revenue_data rt df =
     (case column df col_credit_account of
        Inl e \<Rightarrow> Inl e
      | Inr accounts \<Rightarrow>
          (case column df col_credit of
             Inl e \<Rightarrow> Inl e
           | Inr credits \<Rightarrow>
               (case collect (map gt_zero credits) of
                  Inl e \<Rightarrow> Inl e
                | Inr positive \<Rightarrow>
                    (if col_product \<in> set (columns df)
                     then (let sel = select (map2 (\<lambda>a p. \<not> isna a \<and> p) accounts positive) (rows df);
                               grouped = filter (\<lambda>ir. \<not> isna (snd (group_key ir))) sel
                           in collect
                                (map (\<lambda>k. case sum_cells (group_sum rt)
                                                 (map (\<lambda>ir. cell_of (snd ir) col_credit)
                                                    (filter (\<lambda>ir. group_key ir = k) grouped)) of
                                             Inl e \<Rightarrow> Inl e
                                           | Inr t \<Rightarrow> Inr (k, t))
                                   (group_keys key_le (map group_key grouped))))
                     else Inl KeyError))))"

text \<open>
  \<^verbatim>\<open>revenue_summary[key] += amount\<close>, after \<^verbatim>\<open>revenue_summary[key] = 0\<close> for a new key:
  zero plus a float is that float.
\<close>

fun dict_add :: "runtime \<Rightarrow> 'k \<Rightarrow> rat \<Rightarrow> ('k \<times> rat) list \<Rightarrow> ('k \<times> rat) list" where
  "dict_add rt k v [] = [(k, v)]"
| "dict_add rt k v (kv # d) =
     (if fst kv = k then (k, float_add rt (snd kv) v) # d else kv # dict_add rt k v d)"

definition excluded_account :: "cell \<Rightarrow> bool" where
  "excluded_account account = (account = Num 70001 \<or> account = Num 70100)"

definition accumulate :: "runtime \<Rightarrow> (cell \<times> cell) \<times> rat
    \<Rightarrow> ((cell \<times> cell) \<times> rat) list \<Rightarrow> ((cell \<times> cell) \<times> rat) list" where
  "accumulate rt entry revenue =
     (if excluded_account (fst (fst entry)) then revenue
      else dict_add rt (fst entry) (snd entry) revenue)"

definition revenue_summary :: "runtime \<Rightarrow> frame \<Rightarrow> error + ((cell \<times> cell) \<times> rat) list" where
  "revenue_summary rt df =
     (if length (rows df) > 0
      then (case revenue_data rt df of
              Inl e \<Rightarrow> Inl e
            | Inr rd \<Rightarrow> Inr (fold (accumulate rt) rd []))
      else Inr [])"

subsection \<open>Summary rows\<close>

record summary_row =
  order_date :: cell
  debit_account :: string
  credit_account :: string
  product_name :: cell
  sum_debit :: string
  sum_credit :: string

definition truncate :: "rat \<Rightarrow> int" where
  "truncate q = (if q < 0 then - \<lfloor>- q\<rfloor> else \<lfloor>q\<rfloor>)"

text \<open>\<^verbatim>\<open>str(int(account)) if pd.notna(account) else ''\<close>\<close>

definition account_text :: "runtime \<Rightarrow> cell \<Rightarrow> error + string" where
  "account_text rt account =
     (case account of
        NA \<Rightarrow> Inr ''''
      | Num q \<Rightarrow> Inr (str_of_int (truncate q))
      | Str s \<Rightarrow> (case int_of_text rt s of None \<Rightarrow> Inl ValueError | Some i \<Rightarrow> Inr (str_of_int i))
      | Timestamp y m d \<Rightarrow> Inl TypeError)"

definition blank_row :: summary_row where
  "blank_row =
     \<lparr>order_date = Str '''', debit_account = '''', credit_account = '''',
      product_name = Str '''', sum_debit = '''', sum_credit = ''''\<rparr>"

definition revenue_row :: "runtime \<Rightarrow> cell \<Rightarrow> (cell \<times> cell) \<times> rat \<Rightarrow> error + summary_row" where
  "revenue_row rt cd entry =
     (case account_text rt (fst (fst entry)) of
        Inl e \<Rightarrow> Inl e
      | Inr a \<Rightarrow>
          Inr \<lparr>order_date = cd, debit_account = '''', credit_account = a,
               product_name = snd (fst entry), sum_debit = '''',
               sum_credit = format_thousands (snd entry)\<rparr>)"

definition total_row :: "runtime \<Rightarrow> cell \<Rightarrow> rat \<Rightarrow> rat \<Rightarrow> summary_row" where
  "total_row rt cd total_debit' total_credit' =
     \<lparr>order_date = Str (''total '' @ py_str rt cd), debit_account = '''',
      credit_account = ''total(credit)'', product_name = Str ''grand total'',
      sum_debit = format_thousands total_debit',
      sum_credit = format_thousands total_credit'\<rparr>"

definition create_excel_summary :: "runtime \<Rightarrow> buckets \<Rightarrow> error + summary_row list" where
  "create_excel_summary rt s =
     (case command_date (rest s) of
        Inl e \<Rightarrow> Inl e
      | Inr cd \<Rightarrow>
          (case revenue_summary rt (rest s) of
             Inl e \<Rightarrow> Inl e
           | Inr revenue \<Rightarrow>
               (case collect (map (revenue_row rt cd) (filter (\<lambda>entry. snd entry > 0) revenue)) of
                  Inl e \<Rightarrow> Inl e
                | Inr entries \<Rightarrow>
                    (case (if length (rows (rest s)) > 0 then column_sum rt (rest s) col_credit
                           else Inr 0) of
                       Inl e \<Rightarrow> Inl e
                     | Inr sum_of_credit \<Rightarrow>
                         Inr (blank_row # entries @ [total_row rt cd 0 sum_of_credit])))))"

section \<open>The pipeline: \<^verbatim>\<open>process\<close>\<close>

text \<open>
  The steps of \<^verbatim>\<open>process\<close> between loading the file and saving the workbook.
\<close>

definition process :: "runtime \<Rightarrow> frame \<Rightarrow> error + buckets \<times> summary_row list" where
  "process rt df =
     (case split_data rt df of
        Inl e \<Rightarrow> Inl e
      | Inr s \<Rightarrow>
          (case prepare_columns rt s of
             Inl e \<Rightarrow> Inl e
           | Inr s' \<Rightarrow>
               (case create_excel_summary rt s' of
                  Inl e \<Rightarrow> Inl e
                | Inr summary \<Rightarrow> Inr (s', summary))))"

section \<open>Specification-side notions\<close>

text \<open>
  The following definitions follow the words of the specification; the theorems below
  compare them with the program.

  A frame as pandas builds it: every row holds exactly the columns of the frame.
\<close>

definition well_formed :: "frame \<Rightarrow> bool" where
  "well_formed df = list_all (\<lambda>ir. map fst (snd ir) = columns df) (rows df)"

text \<open>
  The columns that normalization writes: the output names of the renaming, the serial
  number and the order date. A table as it is loaded has none of them.
\<close>

definition output_columns :: "string list" where
  "output_columns =
     [col_transaction, col_date, col_product, col_debit, col_credit, col_debit_account,
      col_credit_account, col_serial, col_order_date]"

text \<open>
  The grouping key by the words of the specification. A reference is missing when it
  is a missing value, the empty text or the text nan, in either spelling. The key of a
  row comes from the nearest reference at or before the row that is not missing; it is
  the text of that reference as an integer, and \<open><NA>\<close> when there is no such reference
  or it is no number.
\<close>

definition key_missing :: "cell \<Rightarrow> bool" where
  "key_missing c = (c = NA \<or> c = Str '''' \<or> c = Str ''nan'' \<or> c = Str ''NaN'')"

definition inherited_key :: "cell list \<Rightarrow> nat \<Rightarrow> cell option" where
  "inherited_key cs i =
     (case filter (\<lambda>c. \<not> key_missing c) (rev (take (Suc i) cs)) of
        [] \<Rightarrow> None
      | c # _ \<Rightarrow> Some c)"

text \<open>The number a cell stands for: a number itself, or a text that reads as one.\<close>

definition numeric_value :: "runtime \<Rightarrow> cell \<Rightarrow> rat option" where
  "numeric_value rt c =
     (case c of Num q \<Rightarrow> Some q | Str t \<Rightarrow> to_numeric_text rt t | _ \<Rightarrow> None)"

definition integer_text :: "rat option \<Rightarrow> string" where
  "integer_text v = (case v of None \<Rightarrow> ''<NA>'' | Some q \<Rightarrow> str_of_int \<lfloor>q\<rfloor>)"

definition grouping_key :: "runtime \<Rightarrow> frame \<Rightarrow> nat \<Rightarrow> string" where
  "grouping_key rt df i =
     integer_text
       (case inherited_key (map (\<lambda>ir. cell_of (snd ir) col_payment_ref) (rows df)) i of
          None \<Rightarrow> None
        | Some c \<Rightarrow> numeric_value rt c)"

text \<open>
  A reference that the cast to 64-bit integers accepts: one that is missing or no
  number, or an integer of 64 bits.
\<close>

definition integer_key :: "runtime \<Rightarrow> cell \<Rightarrow> bool" where
  "integer_key rt c =
     (key_missing c \<or>
      (case numeric_value rt c of
         None \<Rightarrow> True
       | Some q \<Rightarrow> of_int \<lfloor>q\<rfloor> = q \<and> - (2 ^ 63) \<le> \<lfloor>q\<rfloor> \<and> \<lfloor>q\<rfloor> < 2 ^ 63))"

text \<open>
  The numeric coercion of a field by the words of the specification: a value that is
  no number becomes missing.
\<close>

definition numeric_coercion :: "runtime \<Rightarrow> cell \<Rightarrow> cell" where
  "numeric_coercion rt c = (case numeric_value rt c of None \<Rightarrow> NA | Some q \<Rightarrow> Num q)"

text \<open>
  Forward fill as a function of the position, and the text of a cell after the cast,
  in the terms of the program: the steps between \<^const>\<open>block_key\<close> and
  \<^const>\<open>grouping_key\<close>.
\<close>

definition nearest_preceding :: "cell list \<Rightarrow> nat \<Rightarrow> cell" where
  "nearest_preceding cs i =
     (case filter (\<lambda>c. \<not> isna c) (rev (take (Suc i) cs)) of [] \<Rightarrow> NA | c # _ \<Rightarrow> c)"

definition integer_like :: "cell \<Rightarrow> string" where
  "integer_like c = (case c of Num q \<Rightarrow> str_of_int \<lfloor>q\<rfloor> | _ \<Rightarrow> ''<NA>'')"

text \<open>
  Segments by the words of the specification: two candidate rows lie in one segment
  when no row after the earlier one, up to and including the later one, has a missing
  code. A row is marked when a row of its segment carries 4118.
\<close>

definition same_segment :: "cell list \<Rightarrow> nat \<Rightarrow> nat \<Rightarrow> bool" where
  "same_segment code a b =
     list_all (\<lambda>k. \<not> isna (code ! k)) [Suc (min a b)..<Suc (max a b)]"

definition marked :: "cell list \<Rightarrow> nat \<Rightarrow> bool" where
  "marked code a =
     list_ex (\<lambda>b. same_segment code a b \<and> code ! b = Num 4118) [0..<length code]"

text \<open>The cells of one column, and the texts among some cells.\<close>

definition cells :: "frame \<Rightarrow> string \<Rightarrow> cell list" where
  "cells df c = map (\<lambda>ir. cell_of (snd ir) c) (rows df)"

definition texts :: "cell list \<Rightarrow> string list" where
  "texts cs = concat (map (\<lambda>c. case c of Str s \<Rightarrow> [s] | _ \<Rightarrow> []) cs)"

text \<open>
  The order date by the words of the specification: the maximum date string present in
  the bucket, and the empty text when the bucket holds no date string.
\<close>

definition max_date_string :: "frame \<Rightarrow> string" where
  "max_date_string df =
     (if texts (cells df col_date) = [] then '''' else Max (set (texts (cells df col_date))))"

text \<open>The amounts among some cells: the numbers, in their order.\<close>

definition amounts :: "cell list \<Rightarrow> rat list" where
  "amounts cs = concat (map (\<lambda>c. case c of Num q \<Rightarrow> [q] | _ \<Rightarrow> []) cs)"

text \<open>The Other Payment rows, which normalization drops from the rest bucket.\<close>

definition other_payment :: "nat \<times> row \<Rightarrow> bool" where
  "other_payment ir = (cell_of (snd ir) ''InstallmentProducts'' = Str ''Other Payment'')"


section \<open>Example tables\<close>

definition sheet :: "string list \<Rightarrow> cell list list \<Rightarrow> frame" where
  "sheet cols vals = \<lparr>columns = cols, rows = zip [0..<length vals] (map (zip cols) vals)\<rparr>"








text \<open>
  The runtime of the examples. It reads the few texts of the example tables as
  numbers, and its arithmetic is exact. On the example tables that is what the floats
  of the library give: their amounts are integers, or a sum has one term and a
  difference is of two floats within a factor of two of each other, which is exact.
\<close>

definition rt_example :: runtime where
  "rt_example =
     \<lparr>to_numeric_text =
        (\<lambda>s. if s = ''79991'' then Some 79991 else if s = ''4118'' then Some 4118
             else if s = ''5'' then Some 5 else if s = ''70001'' then Some 70001
             else if s = ''300'' then Some 300 else None),
      to_datetime_text = (\<lambda>s. None),
      to_datetime_num = (\<lambda>q. None),
      int_of_text = (\<lambda>s. if s = ''70001'' then Some 70001 else None),
      str_of_float = (\<lambda>q. ''?''),
      float_add = (\<lambda>a b. a + b),
      float_sub = (\<lambda>a b. a - b),
      series_sum = sum_list,
      group_sum = sum_list\<rparr>"

definition raw_columns :: "string list" where
  "raw_columns =
     [''InstallmentTransactionId'', ''InstallmentDate'', ''InstallmentProducts'',
      ''InstallmentPaymentPrice'', ''InstallmentProductPrice'', col_payment_ref, col_product_ref]"

text \<open>
  The end-to-end scenario of the specification: rows 0 and 1 form a segment of key
  79991 that holds 4118, row 2 is a segment of key 79991 without it, rows 3 and 4 have
  another key, and row 3 is an Other Payment.
\<close>

definition table_five :: frame where
  "table_five =
     sheet raw_columns
       [[Num 1, Timestamp 2025 11 27, Str ''Ticket'', Num 10, Num 10, Num 79991, NA],
        [Num 1, Timestamp 2025 11 28, Str ''Advert'', Num 5, Num 5, NA, Num 4118],
        [Num 2, Timestamp 2025 11 29, Str ''Ticket'', Num 7, Num 7, Num 79991, NA],
        [Num 3, Timestamp 2025 11 30, Str ''Other Payment'', Num 9, Num 9, Num 5, Num 70001],
        [Num 4, Timestamp 2025 12 1, Str ''Season'', Num 50, Num 50, NA, Num 300]]"

text \<open>A table whose first two rows have no reference key.\<close>

definition table_leading_missing :: frame where
  "table_leading_missing =
     sheet raw_columns
       [[Num 1, Timestamp 2025 11 27, Str ''Ticket'', Num 10, Num 10, NA, Num 4118],
        [Num 2, Timestamp 2025 11 28, Str ''Ticket'', Num 5, Num 5, Str '''', Num 4118],
        [Num 3, Timestamp 2025 11 29, Str ''Ticket'', Num 7, Num 7, Num 79991, Num 4118]]"

definition segmented :: "frame \<Rightarrow> buckets" where
  "segmented df = projr (split_data rt_example df)"

definition candidates :: "frame \<Rightarrow> frame" where
  "candidates df = fst (projr (split_79991 rt_example df))"

text \<open>
  A table of three rows: row 0 is an advertisement row, rows 1 and 2 have another key,
  and row 1 is an Other Payment. No row goes to the without-advertisement bucket.
\<close>

definition small_columns :: "string list" where
  "small_columns = [''InstallmentDate'', ''InstallmentProducts'', col_payment_ref, col_product_ref]"

definition table_small :: frame where
  "table_small =
     sheet small_columns
       [[Timestamp 2025 11 27, Str ''Ticket'', Num 79991, Num 4118],
        [Timestamp 2025 11 30, Str ''Other Payment'', Num 5, Num 70001],
        [Timestamp 2025 12 1, Str ''Season'', NA, Num 300]]"

definition segmented_small :: buckets where
  "segmented_small =
     \<lparr>without_advertisement = \<lparr>columns = small_columns, rows = []\<rparr>,
      advertisment =
        \<lparr>columns = small_columns,
         rows = [(0, zip small_columns
                       [Timestamp 2025 11 27, Str ''Ticket'', Num 79991, Num 4118])]\<rparr>,
      rest =
        \<lparr>columns = small_columns,
         rows = [(1, zip small_columns
                       [Timestamp 2025 11 30, Str ''Other Payment'', Num 5, Num 70001]),
                 (2, zip small_columns
                       [Timestamp 2025 12 1, Str ''Season'', NA, Num 300])]\<rparr>\<rparr>"

definition normalized_columns :: "string list" where
  "normalized_columns =
     [col_serial, col_date, col_product, col_debit_account, col_credit_account]"

definition normalized_small :: buckets where
  "normalized_small =
     \<lparr>without_advertisement = \<lparr>columns = normalized_columns, rows = []\<rparr>,
      advertisment =
        \<lparr>columns = normalized_columns @ [col_order_date],
         rows = [(0, zip (normalized_columns @ [col_order_date])
                       [Num 1, Str ''2025-11-27'', Str ''Ticket'', Num 79991, Num 4118,
                        Str ''2025-11-27''])]\<rparr>,
      rest =
        \<lparr>columns = normalized_columns @ [col_order_date],
         rows = [(0, zip (normalized_columns @ [col_order_date])
                       [Num 1, Str ''2025-12-01'', Str ''Season'', NA, Num 300,
                        Str ''2025-12-01''])]\<rparr>\<rparr>"

text \<open>
  A rest bucket with the row of the specification, account 70001, product X, credit
  50, and a row of account 4118.
\<close>

definition summary_columns :: "string list" where
  "summary_columns = [col_date, col_credit_account, col_product, col_credit]"

definition buckets_excluded :: buckets where
  "buckets_excluded =
     \<lparr>without_advertisement = \<lparr>columns = summary_columns, rows = []\<rparr>,
      advertisment = \<lparr>columns = summary_columns, rows = []\<rparr>,
      rest = sheet summary_columns
               [[Str ''2025-11-27'', Num 70001, Str ''X'', Num 50],
                [Str ''2025-11-28'', Num 4118, Str ''Y'', Num 25]]\<rparr>"

definition summary_excluded :: "summary_row list" where
  "summary_excluded =
     [blank_row,
      \<lparr>order_date = Str ''28/11/2025'', debit_account = '''', credit_account = ''4118'',
       product_name = Str ''Y'', sum_debit = '''', sum_credit = ''25''\<rparr>,
      \<lparr>order_date = Str ''total 28/11/2025'', debit_account = '''',
       credit_account = ''total(credit)'', product_name = Str ''grand total'',
       sum_debit = ''0'', sum_credit = ''75''\<rparr>]"

text \<open>
  A table whose references are texts: the keys of rows 1, 2 and 4 are an empty text
  and the two spellings of nan, the key of row 5 and the product references of rows 0
  and 5 are no numbers.
\<close>

definition reference_columns :: "string list" where
  "reference_columns = [col_payment_ref, col_product_ref]"

definition table_text :: frame where
  "table_text =
     sheet reference_columns
       [[Str ''79991'', Str ''abc''],
        [Str '''', Str ''4118''],
        [Str ''nan'', NA],
        [Str ''5'', Str ''70001''],
        [Str ''NaN'', Str ''300''],
        [Str ''abc'', Str ''x'']]"

text \<open>A table whose first row has no key and whose second key is no integer.\<close>

definition table_fractional_key :: frame where
  "table_fractional_key =
     sheet reference_columns [[NA, Num 4118], [Num (159983 / 2), Num 4118]]"

text \<open>
  A table whose product reference column is a column of texts, because the reference
  of row 0 is no number. Row 1 is a row of the rest bucket with the account 70001,
  product X and credit 50.
\<close>

definition table_text_account :: frame where
  "table_text_account =
     sheet raw_columns
       [[Num 1, Timestamp 2025 11 27, Str ''Ticket'', Num 10, Num 10, Num 79991, Str ''abc''],
        [Num 2, Timestamp 2025 11 28, Str ''X'', Num 50, Num 50, Num 5, Str ''70001'']]"

definition segmented_text_account :: buckets where
  "segmented_text_account =
     \<lparr>without_advertisement =
        \<lparr>columns = raw_columns,
         rows = [(0, zip raw_columns
                       [Num 1, Timestamp 2025 11 27, Str ''Ticket'', Num 10, Num 10, Num 79991,
                        NA])]\<rparr>,
      advertisment = \<lparr>columns = raw_columns, rows = []\<rparr>,
      rest =
        \<lparr>columns = raw_columns,
         rows = [(1, zip raw_columns
                       [Num 2, Timestamp 2025 11 28, Str ''X'', Num 50, Num 50, Num 5,
                        Str ''70001''])]\<rparr>\<rparr>"

definition full_columns :: "string list" where
  "full_columns =
     [col_serial, col_transaction, col_date, col_product, col_debit, col_credit,
      col_debit_account, col_credit_account]"

definition normalized_text_account :: buckets where
  "normalized_text_account =
     \<lparr>without_advertisement =
        \<lparr>columns = full_columns @ [col_order_date],
         rows = [(0, zip (full_columns @ [col_order_date])
                       [Num 1, Num 1, Str ''2025-11-27'', Str ''Ticket'', Num 10, Num 10,
                        Num 79991, NA, Str ''2025-11-27''])]\<rparr>,
      advertisment = \<lparr>columns = full_columns, rows = []\<rparr>,
      rest =
        \<lparr>columns = full_columns @ [col_order_date],
         rows = [(0, zip (full_columns @ [col_order_date])
                       [Num 1, Num 2, Str ''2025-11-28'', Str ''X'', Num 50, Num 50, Num 5,
                        Str ''70001'', Str ''2025-11-28''])]\<rparr>\<rparr>"

definition summary_text_account :: "summary_row list" where
  "summary_text_account =
     [blank_row,
      \<lparr>order_date = Str ''28/11/2025'', debit_account = '''', credit_account = ''70001'',
       product_name = Str ''X'', sum_debit = '''', sum_credit = ''50''\<rparr>,
      \<lparr>order_date = Str ''total 28/11/2025'', debit_account = '''',
       credit_account = ''total(credit)'', product_name = Str ''grand total'',
       sum_debit = ''0'', sum_credit = ''50''\<rparr>]"

text \<open>A bucket with a dated row and a row without a date.\<close>

definition sheet_mixed_dates :: frame where
  "sheet_mixed_dates = sheet [col_date] [[Str ''2025-11-27''], [NA]]"

section \<open>Lists and masks\<close>

lemma length_ffill_from: "length (ffill_from p cs) = length cs"
  by (induction cs arbitrary: p) auto

lemma length_astype_Int64: "astype_Int64 cs = Inr ks \<Longrightarrow> length ks = length cs"
  by (induction cs arbitrary: ks) (auto split: sum.splits)

lemma length_block_key: "block_key rt df = Inr key \<Longrightarrow> length key = length (rows df)"
  by (auto simp: block_key_def column_def ffill_def length_ffill_from
      split: sum.splits if_splits dest!: length_astype_Int64)

lemma length_cumsum_from: "length (cumsum_from a bs) = length bs"
  by (induction bs arbitrary: a) auto

lemma length_seg_has_4118: "length (seg_has_4118 code) = length code"
  by (simp add: seg_has_4118_def transform_any_def cumsum_def length_cumsum_from)

lemma mset_select:
  "length bs = length xs \<Longrightarrow> mset (select bs xs) + mset (select (map Not bs) xs) = mset xs"
proof (induction bs xs rule: list_induct2)
  case Nil
  then show ?case by (simp add: select_def)
next
  case (Cons b bs x xs)
  then show ?case by (cases b) (auto simp: select_def)
qed

lemma map_select: "map f (select bs xs) = select bs (map f xs)"
  unfolding select_def
  by (induction bs xs rule: list_induct2') auto

lemma set_select: "set (select bs xs) \<subseteq> set xs"
  unfolding select_def by (auto dest: set_zip_rightD)

lemma map_fst_set_cells: "length vs = length rs \<Longrightarrow> map fst (set_cells c vs rs) = map fst rs"
  unfolding set_cells_def
  by (induction vs rs rule: list_induct2) auto

lemma mset_map_select:
  assumes "length bs = length xs"
  shows "mset (map f (select bs xs)) + mset (map f (select (map Not bs) xs)) = mset (map f xs)"
  using mset_select [of bs "map f xs"] assms by (simp add: map_select)

section \<open>The two halves of the Segmenter\<close>

lemma split_79991_Inr:
  assumes "split_79991 rt df = Inr p"
  obtains key where
    "block_key rt df = Inr key"
    "length key = length (rows df)"
    "fst p = df\<lparr>rows := select (map (\<lambda>k. k = ''79991'') key) (rows df)\<rparr>"
    "snd p = df\<lparr>rows := select (map (\<lambda>k. k \<noteq> ''79991'') key) (rows df)\<rparr>"
proof -
  from assms obtain key where key: "block_key rt df = Inr key"
    by (auto simp: split_79991_def split: sum.splits)
  show thesis
    by (rule that [OF key length_block_key [OF key]])
      (use assms key in \<open>auto simp: split_79991_def\<close>)
qed

lemma split_segments_Inr:
  assumes "split_segments rt cand = Inr q"
  shows "col_product_ref \<in> set (columns cand)"
    and "columns (fst q) = columns cand"
    and "columns (snd q) = columns cand"
    and "rows (fst q) = select (seg_has_4118 (coerced rt cand))
           (set_cells col_product_ref (coerced rt cand) (rows cand))"
    and "rows (snd q) = select (map Not (seg_has_4118 (coerced rt cand)))
           (set_cells col_product_ref (coerced rt cand) (rows cand))"
  using assms
  by (auto simp: split_segments_def column_def Let_def set_column_def coerced_def comp_def
      split: if_splits)

lemma split_data_Inr:
  assumes "split_data rt df = Inr s"
  obtains p q where
    "split_79991 rt df = Inr p"
    "split_segments rt (fst p) = Inr q"
    "without_advertisement s = snd q"
    "advertisment s = fst q"
    "rest s = snd p"
  using assms by (auto simp: split_data_def split: sum.splits)

lemma split_data_partition:
  assumes "split_data rt df = Inr s"
  shows "mset (index (without_advertisement s)) + mset (index (advertisment s))
           + mset (index (rest s)) = mset (index df)"
proof -
  from assms obtain p q where
    p: "split_79991 rt df = Inr p" and q: "split_segments rt (fst p) = Inr q" and
    s: "without_advertisement s = snd q" "advertisment s = fst q" "rest s = snd p"
    by (rule split_data_Inr)
  from p obtain key where
    lkey: "length key = length (rows df)" and
    cand: "fst p = df\<lparr>rows := select (map (\<lambda>k. k = ''79991'') key) (rows df)\<rparr>" and
    re: "snd p = df\<lparr>rows := select (map (\<lambda>k. k \<noteq> ''79991'') key) (rows df)\<rparr>"
    by (rule split_79991_Inr)
  define code where "code = coerced rt (fst p)"
  define upd where "upd = set_cells col_product_ref code (rows (fst p))"
  have lcode: "length code = length (rows (fst p))"
    by (simp add: code_def coerced_def)
  have lhas: "length (seg_has_4118 code) = length upd"
    by (simp add: length_seg_has_4118 upd_def set_cells_def lcode)
  have ad: "rows (fst q) = select (seg_has_4118 code) upd"
    and wa: "rows (snd q) = select (map Not (seg_has_4118 code)) upd"
    using split_segments_Inr(4,5) [OF q] by (simp_all add: code_def upd_def)
  have a: "mset (map fst (rows (fst q))) + mset (map fst (rows (snd q)))
          = mset (map fst (rows (fst p)))"
    unfolding wa ad
    using mset_map_select [OF lhas, of fst] by (simp add: upd_def map_fst_set_cells lcode)
  have c: "map (\<lambda>k. k \<noteq> ''79991'') key = map Not (map (\<lambda>k. k = ''79991'') key)"
    by simp
  have b: "mset (map fst (rows (fst p))) + mset (map fst (rows (snd p))) = mset (map fst (rows df))"
    unfolding re cand c using mset_map_select [of "map (\<lambda>k. k = ''79991'') key" "rows df" fst] lkey
    by simp
  show ?thesis
    using a b by (simp add: index_def s ac_simps)
qed

section \<open>Groups\<close>







lemma collect_Inr: "collect xs = Inr ys \<Longrightarrow> xs = map Inr ys"
  by (induction xs arbitrary: ys) (auto split: sum.splits)




lemma numbers_amounts: "numbers cs = Inr qs \<Longrightarrow> qs = amounts cs"
proof (induction cs arbitrary: qs)
  case Nil
  then show ?case by (simp add: amounts_def)
next
  case (Cons c cs)
  then show ?case
    by (cases c) (auto simp: amounts_def split: sum.splits)
qed

lemma sum_cells_amounts:
  "sum_cells library_sum cs = Inr t \<Longrightarrow> t = float_sum library_sum (amounts cs)"
  by (auto simp: sum_cells_def split: sum.splits dest: numbers_amounts)



text \<open>The tolerance is one hundredth up to the rounding of the literal.\<close>

lemma tolerance_near_hundredth: "1 / 100 < tolerance \<and> tolerance < 1 / 100 + 1 / 10 ^ 18"
  by (simp add: tolerance_def)

section \<open>Forward fill and the block key\<close>

lemma ffill_from_nth:
  "i < length cs \<Longrightarrow>
     ffill_from p cs ! i
       = (case filter (\<lambda>c. \<not> isna c) (rev (take (Suc i) cs)) of [] \<Rightarrow> p | c # _ \<Rightarrow> c)"
proof (induction cs arbitrary: p i)
  case Nil
  then show ?case by simp
next
  case (Cons c cs)
  show ?case
  proof (cases i)
    case 0
    then show ?thesis by simp
  next
    case (Suc j)
    then have j: "j < length cs"
      using Cons.prems by simp
    show ?thesis
      using Cons.IH [OF j] Suc by (auto split: list.splits)
  qed
qed

lemma ffill_nth: "i < length cs \<Longrightarrow> ffill cs ! i = nearest_preceding cs i"
  by (simp add: ffill_def nearest_preceding_def ffill_from_nth)

lemma set_ffill_from: "set (ffill_from p cs) \<subseteq> insert p (set cs)"
  by (induction cs arbitrary: p) auto

lemma astype_Int64_nth:
  "astype_Int64 cs = Inr ks \<Longrightarrow> i < length cs \<Longrightarrow> int64_of (cs ! i) = Inr (ks ! i)"
proof (induction cs arbitrary: ks i)
  case Nil
  then show ?case by simp
next
  case (Cons c cs)
  then show ?case
    by (cases i) (auto split: sum.splits)
qed

lemma astype_Int64_total:
  "(\<And>c. c \<in> set cs \<Longrightarrow> int64_of c \<noteq> Inl TypeError) \<Longrightarrow> \<exists>ks. astype_Int64 cs = Inr ks"
proof (induction cs)
  case Nil
  then show ?case by simp
next
  case (Cons c cs)
  have "int64_of c \<noteq> Inl TypeError"
    using Cons.prems by simp
  then obtain k where k: "int64_of c = Inr k"
    by (cases c) (auto simp: int64_of_def split: if_splits)
  obtain ks where "astype_Int64 cs = Inr ks"
    using Cons by auto
  with k show ?case by simp
qed

lemma astype_str_integer_like: "int64_of c = Inr k \<Longrightarrow> astype_str k = integer_like c"
  by (cases c) (auto simp: int64_of_def astype_str_def integer_like_def split: if_splits)

lemma isna_replace_missing: "isna (replace_missing c) \<longleftrightarrow> key_missing c"
  by (auto simp: isna_def replace_missing_def key_missing_def)

lemma replace_missing_kept: "\<not> key_missing c \<Longrightarrow> replace_missing c = c"
  by (auto simp: replace_missing_def key_missing_def)

lemma filter_replace_missing:
  "filter (\<lambda>c. \<not> isna c) (map replace_missing cs) = filter (\<lambda>c. \<not> key_missing c) cs"
  by (induction cs) (auto simp: isna_replace_missing replace_missing_kept)

lemma nearest_preceding_inherited_key:
  "nearest_preceding (map replace_missing cs) i
     = (case inherited_key cs i of None \<Rightarrow> NA | Some c \<Rightarrow> c)"
proof -
  have "rev (take (Suc i) (map replace_missing cs)) = map replace_missing (rev (take (Suc i) cs))"
    by (simp add: take_map rev_map)
  then show ?thesis
    by (simp add: nearest_preceding_def inherited_key_def filter_replace_missing
        split: list.splits)
qed

lemma to_numeric_coercion: "to_numeric rt c = numeric_coercion rt c"
  by (cases c) (auto simp: to_numeric_def numeric_coercion_def numeric_value_def)

lemma integer_like_to_numeric: "integer_like (to_numeric rt c) = integer_text (numeric_value rt c)"
  by (cases c)
    (auto simp: to_numeric_def integer_like_def integer_text_def numeric_value_def
      split: option.splits)

lemma integer_like_inherited:
  "integer_like (to_numeric rt (case k of None \<Rightarrow> NA | Some c \<Rightarrow> c))
     = integer_text (case k of None \<Rightarrow> None | Some c \<Rightarrow> numeric_value rt c)"
  by (cases k) (simp_all add: integer_like_to_numeric, simp add: numeric_value_def)

lemma block_key_grouping_key:
  assumes "block_key rt df = Inr key"
  shows "key = map (grouping_key rt df) [0..<length (rows df)]"
proof (rule nth_equalityI)
  note len = length_block_key [OF assms]
  show "length key = length (map (grouping_key rt df) [0..<length (rows df)])"
    by (simp add: len)
  fix i assume "i < length key"
  then have i: "i < length (rows df)"
    by (simp add: len)
  let ?raw = "map (\<lambda>ir. cell_of (snd ir) col_payment_ref) (rows df)"
  let ?ref = "map replace_missing ?raw"
  from assms obtain ks where
    ks: "astype_Int64 (map (to_numeric rt) (ffill ?ref)) = Inr ks" and key: "key = map astype_str ks"
    by (auto simp: block_key_def column_def split: sum.splits if_splits)
  have lf: "length (ffill ?ref) = length (rows df)"
    by (simp add: ffill_def length_ffill_from)
  have "int64_of (map (to_numeric rt) (ffill ?ref) ! i) = Inr (ks ! i)"
    using astype_Int64_nth [OF ks] i lf by simp
  then have "astype_str (ks ! i) = integer_like (to_numeric rt (ffill ?ref ! i))"
    using astype_str_integer_like i lf by simp
  moreover have "ffill ?ref ! i = nearest_preceding ?ref i"
    using ffill_nth [of i ?ref] i by simp
  moreover have "length ks = length (rows df)"
    using length_astype_Int64 [OF ks] lf by simp
  ultimately have "key ! i = integer_like (to_numeric rt (nearest_preceding ?ref i))"
    using i by (simp add: key)
  also have "\<dots> = grouping_key rt df i"
    unfolding nearest_preceding_inherited_key integer_like_inherited grouping_key_def ..
  finally show "key ! i = map (grouping_key rt df) [0..<length (rows df)] ! i"
    using i by simp
qed

section \<open>Segments\<close>

lemma cumsum_from_Suc:
  "Suc k < length bs \<Longrightarrow>
     cumsum_from acc bs ! Suc k = cumsum_from acc bs ! k + (if bs ! Suc k then 1 else 0)"
proof (induction bs arbitrary: acc k)
  case Nil
  then show ?case by simp
next
  case (Cons b bs)
  show ?case
  proof (cases k)
    case 0
    then show ?thesis
      using Cons.prems by (cases bs) auto
  next
    case (Suc j)
    then show ?thesis
      using Cons.IH [of j] Cons.prems by simp
  qed
qed

lemma cumsum_from_segment:
  "a + d < length bs \<Longrightarrow>
     cumsum_from acc bs ! a \<le> cumsum_from acc bs ! (a + d)
     \<and> (cumsum_from acc bs ! a = cumsum_from acc bs ! (a + d)
          \<longleftrightarrow> (\<forall>k. a < k \<and> k \<le> a + d \<longrightarrow> \<not> bs ! k))"
proof (induction d)
  case 0
  then show ?case by auto
next
  case (Suc d)
  then have ih: "cumsum_from acc bs ! a \<le> cumsum_from acc bs ! (a + d)"
    "cumsum_from acc bs ! a = cumsum_from acc bs ! (a + d)
       \<longleftrightarrow> (\<forall>k. a < k \<and> k \<le> a + d \<longrightarrow> \<not> bs ! k)"
    by auto
  have step: "cumsum_from acc bs ! (a + Suc d)
      = cumsum_from acc bs ! (a + d) + (if bs ! (a + Suc d) then 1 else 0)"
    using cumsum_from_Suc [of "a + d" bs acc] Suc.prems by simp
  have split: "(\<forall>k. a < k \<and> k \<le> a + Suc d \<longrightarrow> \<not> bs ! k)
      \<longleftrightarrow> (\<forall>k. a < k \<and> k \<le> a + d \<longrightarrow> \<not> bs ! k) \<and> \<not> bs ! (a + Suc d)"
    by (auto simp: le_Suc_eq)
  show ?case
    unfolding split using ih step by auto
qed

lemma cumsum_same_segment:
  assumes "a < length code" and "b < length code"
  shows "cumsum (map isna code) ! b = cumsum (map isna code) ! a \<longleftrightarrow> same_segment code a b"
proof -
  define lo where "lo = min a b"
  define hi where "hi = max a b"
  have hi: "hi < length code" and le: "lo \<le> hi"
    using assms by (auto simp: lo_def hi_def)
  have "cumsum (map isna code) ! lo = cumsum (map isna code) ! hi
      \<longleftrightarrow> (\<forall>k. lo < k \<and> k \<le> hi \<longrightarrow> \<not> map isna code ! k)"
    using cumsum_from_segment [of lo "hi - lo" "map isna code" 0] hi le
    by (simp add: cumsum_def)
  also have "\<dots> \<longleftrightarrow> (\<forall>k. lo < k \<and> k \<le> hi \<longrightarrow> \<not> isna (code ! k))"
    using hi by auto
  also have "\<dots> \<longleftrightarrow> same_segment code a b"
  proof -
    have "set [Suc lo..<Suc hi] = {k. lo < k \<and> k \<le> hi}"
      by auto
    then show ?thesis
      by (simp add: same_segment_def list_all_iff lo_def hi_def)
  qed
  finally have "cumsum (map isna code) ! lo = cumsum (map isna code) ! hi
      \<longleftrightarrow> same_segment code a b" .
  then show ?thesis
    by (cases "a \<le> b") (auto simp: lo_def hi_def min_def max_def)
qed

lemma list_ex_zip:
  assumes "length xs = length ys"
  shows "list_ex (\<lambda>p. fst p = s \<and> snd p) (zip xs ys) \<longleftrightarrow> (\<exists>b < length xs. xs ! b = s \<and> ys ! b)"
proof
  assume "list_ex (\<lambda>p. fst p = s \<and> snd p) (zip xs ys)"
  then obtain p where p: "p \<in> set (zip xs ys)" "fst p = s" "snd p"
    unfolding list_ex_iff by blast
  from p(1) obtain b where "b < length xs" "p = (xs ! b, ys ! b)"
    using assms unfolding set_zip by auto
  with p show "\<exists>b < length xs. xs ! b = s \<and> ys ! b"
    by auto
next
  assume "\<exists>b < length xs. xs ! b = s \<and> ys ! b"
  then obtain b where b: "b < length xs" "xs ! b = s" "ys ! b"
    by blast
  then have "(xs ! b, ys ! b) \<in> set (zip xs ys)"
    using assms unfolding set_zip by auto
  with b show "list_ex (\<lambda>p. fst p = s \<and> snd p) (zip xs ys)"
    unfolding list_ex_iff by force
qed

lemma seg_has_4118_marked: "seg_has_4118 code = map (marked code) [0..<length code]"
proof (rule nth_equalityI)
  show "length (seg_has_4118 code) = length (map (marked code) [0..<length code])"
    by (simp add: length_seg_has_4118)
  fix a assume "a < length (seg_has_4118 code)"
  then have a: "a < length code"
    by (simp add: length_seg_has_4118)
  define seg where "seg = cumsum (map isna code)"
  have ls: "length seg = length code"
    by (simp add: seg_def cumsum_def length_cumsum_from)
  have "seg_has_4118 code ! a
      = list_ex (\<lambda>p. fst p = seg ! a \<and> snd p) (zip seg (map (\<lambda>c. c = Num 4118) code))"
    using a ls by (simp add: seg_has_4118_def transform_any_def seg_def)
  also have "\<dots> \<longleftrightarrow> (\<exists>b < length seg. seg ! b = seg ! a \<and> map (\<lambda>c. c = Num 4118) code ! b)"
    by (rule list_ex_zip) (simp add: ls)
  also have "\<dots> \<longleftrightarrow> (\<exists>b < length code. seg ! b = seg ! a \<and> code ! b = Num 4118)"
    using ls by auto
  also have "\<dots> \<longleftrightarrow> (\<exists>b < length code. same_segment code a b \<and> code ! b = Num 4118)"
    using cumsum_same_segment [OF a] unfolding seg_def by blast
  also have "\<dots> \<longleftrightarrow> marked code a"
    unfolding marked_def list_ex_iff by auto
  finally show "seg_has_4118 code ! a = map (marked code) [0..<length code] ! a"
    using a by simp
qed

section \<open>Cells of the rows that are written back\<close>

lemma cell_of_update: "cell_of (AList.update k v r) c = (if c = k then v else cell_of r c)"
  by (simp add: cell_of_def update_conv')

lemma set_cells_map:
  "set_cells c (map f rs) rs = map (\<lambda>ir. (fst ir, AList.update c (f ir) (snd ir))) rs"
  by (induction rs) (auto simp: set_cells_def)

lemma set_cells_coerced:
  "set_cells col_product_ref (coerced rt cand) (rows cand)
     = map (\<lambda>ir. (fst ir, AList.update col_product_ref
                             (to_numeric rt (cell_of (snd ir) col_product_ref)) (snd ir)))
         (rows cand)"
  unfolding coerced_def by (rule set_cells_map)

lemma take_select:
  "k \<le> length xs \<Longrightarrow> length bs = length xs \<Longrightarrow> (\<And>i. i < k \<Longrightarrow> bs ! i)
     \<Longrightarrow> take k (select bs xs) = take k xs"
proof (induction k arbitrary: bs xs)
  case 0
  then show ?case by simp
next
  case (Suc k)
  from Suc.prems obtain x xs' b bs' where xs: "xs = x # xs'" and bs: "bs = b # bs'"
    by (cases xs; cases bs) auto
  have b: "b"
    using Suc.prems(3) [of 0] bs by simp
  have "take k (select bs' xs') = take k xs'"
  proof (rule Suc.IH)
    show "k \<le> length xs'" "length bs' = length xs'"
      using Suc.prems xs bs by auto
    fix i assume "i < k"
    then show "bs' ! i"
      using Suc.prems(3) [of "Suc i"] bs by simp
  qed
  then show ?case
    using b by (simp add: xs bs select_def)
qed

section \<open>Evaluation of the examples\<close>

lemmas segmenter_defs = split_data_def split_79991_def block_key_def column_def cell_of_def
  replace_missing_def ffill_def to_numeric_def int64_of_def astype_str_def str_of_int_def
  digit_char_def select_def split_segments_def seg_has_4118_def cumsum_def transform_any_def
  set_column_def set_cells_def isna_def Let_def index_def coerced_def

lemmas example_defs = rt_example_def table_five_def table_leading_missing_def sheet_def
  raw_columns_def table_text_def table_fractional_key_def reference_columns_def

lemma split_data_table_five: "split_data rt_example table_five = Inr (segmented table_five)"
  unfolding segmented_def by (simp add: segmenter_defs example_defs)

section \<open>Rows without a key at the head of the table\<close>

lemma nearest_preceding_all_missing:
  assumes "\<And>j. j \<le> i \<Longrightarrow> j < length cs \<Longrightarrow> isna (cs ! j)"
  shows "nearest_preceding cs i = NA"
proof -
  have "\<not> isna c \<Longrightarrow> c \<notin> set (take (Suc i) cs)" for c
    using assms by (auto simp: in_set_conv_nth)
  then have "filter (\<lambda>c. \<not> isna c) (rev (take (Suc i) cs)) = []"
    by (auto simp: filter_empty_conv)
  then show ?thesis
    by (simp add: nearest_preceding_def)
qed

lemma block_key_total:
  assumes "col_payment_ref \<in> set (columns df)"
    and "\<And>ir. ir \<in> set (rows df) \<Longrightarrow>
           int64_of (to_numeric rt (replace_missing (cell_of (snd ir) col_payment_ref)))
             \<noteq> Inl TypeError"
  shows "\<exists>key. block_key rt df = Inr key"
proof -
  let ?ref = "map (\<lambda>ir. replace_missing (cell_of (snd ir) col_payment_ref)) (rows df)"
  have "int64_of c \<noteq> Inl TypeError" if "c \<in> set (map (to_numeric rt) (ffill ?ref))" for c
  proof -
    from that obtain v where v: "v \<in> set (ffill ?ref)" and c: "c = to_numeric rt v"
      by auto
    have "v = NA \<or> v \<in> set ?ref"
      using v set_ffill_from [of NA ?ref] by (auto simp: ffill_def)
    then show ?thesis
    proof
      assume "v = NA"
      then show ?thesis
        by (simp add: c to_numeric_def int64_of_def)
    next
      assume "v \<in> set ?ref"
      then show ?thesis
        using assms(2) c by auto
    qed
  qed
  then obtain ks where "astype_Int64 (map (to_numeric rt) (ffill ?ref)) = Inr ks"
    using astype_Int64_total by blast
  then show ?thesis
    using assms(1) by (simp add: block_key_def column_def comp_def)
qed

lemma split_data_total:
  assumes "block_key rt df = Inr key" and "col_product_ref \<in> set (columns df)"
  shows "\<exists>s. split_data rt df = Inr s"
  using assms
  by (simp add: split_data_def split_79991_def split_segments_def column_def Let_def)

lemma integer_key_cast:
  assumes "integer_key rt c"
  shows "int64_of (to_numeric rt (replace_missing c)) \<noteq> Inl TypeError"
proof (cases "key_missing c")
  case True
  then have "replace_missing c = NA"
    using isna_replace_missing [of c] by (simp add: isna_def)
  then show ?thesis
    by (simp add: to_numeric_def int64_of_def)
next
  case False
  then have "case numeric_value rt c of
         None \<Rightarrow> True
       | Some q \<Rightarrow> of_int \<lfloor>q\<rfloor> = q \<and> - (2 ^ 63) \<le> \<lfloor>q\<rfloor> \<and> \<lfloor>q\<rfloor> < 2 ^ 63"
    using assms by (simp add: integer_key_def)
  then show ?thesis
  proof (cases "numeric_value rt c")
    case None
    then show ?thesis
      using False
      by (simp add: replace_missing_kept to_numeric_coercion numeric_coercion_def int64_of_def)
  next
    case (Some q)
    assume "case numeric_value rt c of
         None \<Rightarrow> True
       | Some q \<Rightarrow> of_int \<lfloor>q\<rfloor> = q \<and> - (2 ^ 63) \<le> \<lfloor>q\<rfloor> \<and> \<lfloor>q\<rfloor> < 2 ^ 63"
    then have "of_int \<lfloor>q\<rfloor> = q \<and> - (2 ^ 63) \<le> \<lfloor>q\<rfloor> \<and> \<lfloor>q\<rfloor> < 2 ^ 63"
      using Some by simp
    then have "int64_of (Num q) = Inr (Some \<lfloor>q\<rfloor>)"
      unfolding int64_of_def by (simp only: cell.case if_True simp_thms)
    then show ?thesis
      using False Some
      by (simp add: replace_missing_kept to_numeric_coercion numeric_coercion_def)
  qed
qed

section \<open>The steps of the Column Normalizer\<close>

lemma cell_of_delete: "cell_of (AList.delete k r) c = (if c = k then NA else cell_of r c)"
  by (simp add: cell_of_def delete_conv')

lemma map_zip_snd: "length vs = length xs \<Longrightarrow> map (\<lambda>vx. h (snd vx)) (zip vs xs) = map h xs"
  by (induction vs xs rule: list_induct2) auto

lemma drop_column_shape:
  "columns (drop_column c df) = removeAll c (columns df)"
  "length (rows (drop_column c df)) = length (rows df)"
  "index (drop_column c df) = index df"
  by (auto simp: drop_column_def index_def comp_def)

lemma cells_drop_column:
  "c' \<noteq> c \<Longrightarrow> cells (drop_column c df) c' = cells df c'"
  by (auto simp: drop_column_def cells_def cell_of_delete)

lemma number_rows_shape:
  "columns (number_rows df) = col_serial # removeAll col_serial (columns df)"
  "length (rows (number_rows df)) = length (rows df)"
  "index (number_rows df) = index df"
proof -
  let ?vs = "map (\<lambda>n. Num (of_nat n)) [1..<length (rows df) + 1]"
  have l: "length ?vs = length (rows (drop_column col_serial df))"
    by (simp add: drop_column_shape del: upt_Suc)
  show "columns (number_rows df) = col_serial # removeAll col_serial (columns df)"
    by (simp add: number_rows_def insert_first_def drop_column_shape)
  show "length (rows (number_rows df)) = length (rows df)"
    using l by (simp add: number_rows_def insert_first_def drop_column_shape del: upt_Suc)
  have "map fst (rows (number_rows df))
      = map (\<lambda>vx. fst (snd vx)) (zip ?vs (rows (drop_column col_serial df)))"
    by (simp add: number_rows_def insert_first_def)
  also have "\<dots> = map fst (rows (drop_column col_serial df))"
    by (rule map_zip_snd [OF l])
  finally show "index (number_rows df) = index df"
    using drop_column_shape(3) [of col_serial df] by (simp add: index_def)
qed

lemma cells_number_rows:
  assumes "c \<noteq> col_serial"
  shows "cells (number_rows df) c = cells df c"
proof -
  let ?vs = "map (\<lambda>n. Num (of_nat n)) [1..<length (rows df) + 1]"
  have l: "length ?vs = length (rows (drop_column col_serial df))"
    by (simp add: drop_column_shape del: upt_Suc)
  have "cells (number_rows df) c
      = map (\<lambda>vx. cell_of (snd (snd vx)) c) (zip ?vs (rows (drop_column col_serial df)))"
    using assms by (simp add: number_rows_def insert_first_def cells_def cell_of_def)
  also have "\<dots> = cells (drop_column col_serial df) c"
    unfolding cells_def by (rule map_zip_snd [OF l])
  finally show ?thesis
    using assms by (simp add: cells_drop_column)
qed

lemma set_column_const:
  "rows (set_column df c (map (\<lambda>_. v) (rows df)))
     = map (\<lambda>ir. (fst ir, AList.update c v (snd ir))) (rows df)"
  using set_cells_map [of c "\<lambda>_. v" "rows df"] by (simp add: set_column_def)

lemma max_from_texts: "max_from (Str v) (map Str vs) = Inr (Str (fold max vs v))"
  by (induction vs arbitrary: v) (auto simp: max.commute)

text \<open>
  A maximum over texts and missing values that does not raise is a maximum over texts
  alone, unless it is over one missing value.
\<close>

lemma max_from_all_texts:
  assumes "max_from v vs = Inr r"
    and "\<And>c. c \<in> set (v # vs) \<Longrightarrow> c = NA \<or> (\<exists>s. c = Str s)"
    and "v \<noteq> NA \<or> vs \<noteq> []"
  shows "\<exists>ts. v # vs = map Str ts"
  using assms
proof (induction vs arbitrary: v)
  case Nil
  then obtain s where "v = Str s"
    by auto
  then have "[v] = map Str [s]"
    by simp
  then show ?case
    by (rule exI)
next
  case (Cons c cs)
  have v: "v = NA \<or> (\<exists>s. v = Str s)" and c: "c = NA \<or> (\<exists>s. c = Str s)"
    using Cons.prems(2) by auto
  obtain v' where m: "cell_max v c = Inr v'" and rest: "max_from v' cs = Inr r"
    using Cons.prems(1) by (auto split: sum.splits)
  from m v c obtain a b where ab: "v = Str a" "c = Str b" "v' = Str (max a b)"
    by auto
  have "\<exists>ts. v' # cs = map Str ts"
  proof (rule Cons.IH [OF rest])
    show "v' \<noteq> NA \<or> cs \<noteq> []"
      by (simp add: ab)
    fix x assume "x \<in> set (v' # cs)"
    then show "x = NA \<or> (\<exists>s. x = Str s)"
      using Cons.prems(2) [of x] ab by auto
  qed
  then obtain ts where ts: "v' # cs = map Str ts" ..
  then obtain t ts' where "ts = t # ts'" and cs: "cs = map Str ts'"
    by (cases ts) auto
  then have "v # c # cs = map Str (a # b # ts')"
    by (simp add: ab)
  then show ?case
    by (rule exI)
qed

lemma texts_map_Str: "texts (map Str ts) = ts"
  by (induction ts) (simp_all add: texts_def)

lemma texts_empty_conv:
  assumes "\<And>c. c \<in> set cs \<Longrightarrow> c = NA \<or> (\<exists>s. c = Str s)"
  shows "texts cs = [] \<longleftrightarrow> list_all isna cs"
  using assms
proof (induction cs)
  case Nil
  then show ?case by (simp add: texts_def)
next
  case (Cons c cs)
  then have ih: "texts cs = [] \<longleftrightarrow> list_all isna cs"
    by simp
  have "c = NA \<or> (\<exists>s. c = Str s)"
    using Cons.prems by simp
  then show ?case
  proof
    assume "c = NA"
    then show ?thesis
      using ih by (simp add: texts_def isna_def [abs_def])
  next
    assume "\<exists>s. c = Str s"
    then show ?thesis
      by (auto simp: texts_def isna_def)
  qed
qed

lemma list_ex_is_text: "list_ex is_text cs \<longleftrightarrow> texts cs \<noteq> []"
proof (induction cs)
  case Nil
  then show ?case by (simp add: texts_def)
next
  case (Cons c cs)
  then show ?case
    by (cases c) (auto simp: texts_def is_text_def)
qed

lemma series_max_texts:
  assumes "\<And>c. c \<in> set cs \<Longrightarrow> c = NA \<or> (\<exists>s. c = Str s)"
    and "texts cs \<noteq> []"
    and "series_max cs = Inr r"
  shows "r = Str (Max (set (texts cs)))"
proof -
  obtain v vs where cs: "cs = v # vs"
    using assms(2) by (cases cs) (auto simp: texts_def)
  have "list_ex is_text cs"
    using assms(2) by (simp add: list_ex_is_text)
  then have "series_max cs = max_from v vs"
    unfolding series_max_def by (simp add: cs)
  then have m: "max_from v vs = Inr r"
    using assms(3) by simp
  have nonempty: "v \<noteq> NA \<or> vs \<noteq> []"
    using assms(2) by (auto simp: cs texts_def)
  have "\<exists>ts. v # vs = map Str ts"
  proof (rule max_from_all_texts [OF m _ nonempty])
    fix c assume "c \<in> set (v # vs)"
    then show "c = NA \<or> (\<exists>s. c = Str s)"
      using assms(1) [of c] by (simp add: cs)
  qed
  then obtain ts where ts: "v # vs = map Str ts" ..
  then obtain t ts' where t: "ts = t # ts'" "v = Str t" "vs = map Str ts'"
    by (cases ts) auto
  have "r = Str (fold max ts' t)"
    using m by (simp add: t max_from_texts)
  also have "fold max ts' t = Max (set (t # ts'))"
    by (rule Max.set_eq_fold [symmetric])
  also have "t # ts' = texts cs"
    using texts_map_Str [of "t # ts'"] t by (simp add: cs)
  finally show ?thesis .
qed

text \<open>The last step, on a frame whose date column holds texts and missing values.\<close>

lemma add_order_date_formatted:
  assumes "\<And>c. c \<in> set (cells df col_date) \<Longrightarrow> c = NA \<or> (\<exists>s. c = Str s)"
    and "col_date \<in> set (columns df)" and "rows df \<noteq> []"
    and "add_order_date df = Inr b"
  shows "b = set_column df col_order_date (map (\<lambda>_. Str (max_date_string df)) (rows df))"
proof (cases "texts (cells df col_date) = []")
  case True
  then have "list_all isna (cells df col_date)"
    using texts_empty_conv [OF assms(1)] by simp
  then show ?thesis
    using assms(2,3,4) True by (simp add: add_order_date_def max_date_string_def cells_def)
next
  case False
  then have n: "\<not> list_all isna (cells df col_date)"
    using texts_empty_conv [OF assms(1)] by simp
  then obtain r where r: "series_max (cells df col_date) = Inr r"
    and b: "b = set_column df col_order_date (map (\<lambda>_. r) (rows df))"
    using assms(2,3,4) by (auto simp: add_order_date_def cells_def split: sum.splits)
  have "r = Str (max_date_string df)"
    using series_max_texts [OF assms(1) False r] False by (simp add: max_date_string_def)
  then show ?thesis
    using b by simp
qed

lemma add_order_date_skipped:
  assumes "col_date \<notin> set (columns df) \<or> rows df = []"
  shows "add_order_date df = Inr df"
  using assms by (auto simp: add_order_date_def)

text \<open>Whatever the dates, the step that returns writes one value into the order date.\<close>

lemma add_order_date_Inr:
  assumes "add_order_date df = Inr b"
  shows "b = df \<or> (\<exists>v. b = set_column df col_order_date (map (\<lambda>_. v) (rows df)))"
  using assms by (auto simp: add_order_date_def Let_def split: if_splits sum.splits)

lemma cells_set_column_const:
  "cells (set_column df c (map (\<lambda>_. v) (rows df))) c'
     = (if c' = c then map (\<lambda>_. v) (rows df) else cells df c')"
  by (simp add: cells_def set_column_const comp_def cell_of_update)

text \<open>A dated row beside a row without a date makes the step raise.\<close>

lemma add_order_date_mixed_dates: "add_order_date sheet_mixed_dates = Inl TypeError"
  by (simp add: add_order_date_def sheet_mixed_dates_def sheet_def series_max_def is_text_def
      cell_of_def isna_def)

section \<open>The Column Normalizer as a whole\<close>

lemma fold_drop_column_shape:
  "columns (fold drop_column cs df) = fold removeAll cs (columns df)"
  "length (rows (fold drop_column cs df)) = length (rows df)"
  "index (fold drop_column cs df) = index df"
  by (induction cs arbitrary: df) (simp_all add: drop_column_shape)

lemma rename_shape:
  "columns (rename df) = map rename_col (columns df)"
  "length (rows (rename df)) = length (rows df)"
  "index (rename df) = index df"
  by (simp_all add: rename_def index_def comp_def)

lemma format_date_text: "format_date rt c = NA \<or> (\<exists>s. format_date rt c = Str s)"
  by (cases c) (auto simp: format_date_def split: option.splits)

lemma format_dates_shape:
  "columns (format_dates rt df) = columns df"
  "length (rows (format_dates rt df)) = length (rows df)"
  "index (format_dates rt df) = index df"
  by (auto simp: format_dates_def set_column_def set_cells_map index_def comp_def)

lemma cells_format_dates:
  assumes "col_date \<in> set (columns df)"
  shows "cells (format_dates rt df) col_date
      = map (\<lambda>ir. format_date rt (cell_of (snd ir) col_date)) (rows df)"
  using assms
  by (simp add: format_dates_def set_column_def set_cells_map cells_def comp_def cell_of_update)

lemma cell_of_reindexed:
  "cell_of (map (\<lambda>c. (c, f c)) cols) c' = (if c' \<in> set cols then f c' else NA)"
  by (induction cols) (auto simp: cell_of_def)

lemma reindex_shape:
  "columns (reindex cols df) = cols"
  "length (rows (reindex cols df)) = length (rows df)"
  "index (reindex cols df) = index df"
  by (simp_all add: reindex_def index_def comp_def)

lemma cells_reindex:
  "cells (reindex cols df) c
     = (if c \<in> set cols \<and> c \<in> set (columns df) then cells df c else map (\<lambda>_. NA) (rows df))"
  by (simp add: reindex_def cells_def comp_def cell_of_reindexed)

lemma formatted_format_dates:
  assumes "col_date \<in> set (columns df)" and "c \<in> set (cells (format_dates rt df) col_date)"
  shows "c = NA \<or> (\<exists>s. c = Str s)"
  using assms format_date_text by (auto simp: cells_format_dates)

lemma formatted_reindex:
  assumes "c \<in> set (cells (reindex cols (format_dates rt df)) col_date)"
  shows "c = NA \<or> (\<exists>s. c = Str s)"
proof (cases "col_date \<in> set cols \<and> col_date \<in> set (columns df)")
  case True
  then have "c \<in> set (cells (format_dates rt df) col_date)"
    using assms by (simp add: cells_reindex format_dates_shape)
  then show ?thesis
    using True formatted_format_dates by blast
next
  case False
  then show ?thesis
    using assms by (auto simp: cells_reindex format_dates_shape)
qed

text \<open>The date column of an aligned bucket holds texts and missing values.\<close>

lemma formatted_align_columns:
  assumes "b \<in> {without_advertisement (align_columns rt s), advertisment (align_columns rt s),
                  rest (align_columns rt s)}"
    and "col_date \<in> set (columns b)" and "c \<in> set (cells b col_date)"
  shows "c = NA \<or> (\<exists>s. c = Str s)"
proof -
  consider "b = without_advertisement (align_columns rt s)"
    | "b = advertisment (align_columns rt s)" | "b = rest (align_columns rt s)"
    using assms(1) by blast
  then show ?thesis
  proof cases
    case 1
    then show ?thesis
      using assms(2,3) formatted_format_dates
      by (simp add: align_columns_def Let_def format_dates_shape)
  next
    case 2
    then show ?thesis
      using assms(3) formatted_reindex by (simp add: align_columns_def Let_def)
  next
    case 3
    then show ?thesis
      using assms(3) formatted_reindex by (simp add: align_columns_def Let_def)
  qed
qed

lemma rename_col_order_date: "rename_col c = col_order_date \<longleftrightarrow> c = col_order_date"
  by (auto simp: rename_col_def column_mapping_def split: if_splits)

lemma columns_align_columns:
  assumes "b \<in> {without_advertisement (align_columns rt s), advertisment (align_columns rt s),
                  rest (align_columns rt s)}"
  shows "columns b
      = map rename_col (fold removeAll columns_to_drop (columns (without_advertisement s)))"
  using assms
  by (auto simp: align_columns_def Let_def reindex_shape format_dates_shape rename_shape
      fold_drop_column_shape)

lemma set_fold_removeAll: "set (fold removeAll ds cs) = set cs - set ds"
  by (induction ds arbitrary: cs) auto

lemma order_date_column_align_columns:
  assumes "b \<in> {without_advertisement (align_columns rt s), advertisment (align_columns rt s),
                  rest (align_columns rt s)}"
  shows "col_order_date \<in> set (columns b)
      \<longleftrightarrow> col_order_date \<in> set (columns (without_advertisement s))"
proof -
  have img: "col_order_date \<in> rename_col ` A \<longleftrightarrow> col_order_date \<in> A" for A
  proof
    assume "col_order_date \<in> rename_col ` A"
    then obtain c where "c \<in> A" "rename_col c = col_order_date"
      by force
    then show "col_order_date \<in> A"
      by (simp add: rename_col_order_date)
  next
    assume "col_order_date \<in> A"
    moreover have "rename_col col_order_date = col_order_date"
      by (simp add: rename_col_order_date)
    ultimately show "col_order_date \<in> rename_col ` A"
      by force
  qed
  show ?thesis
    unfolding columns_align_columns [OF assms]
    by (simp add: img set_fold_removeAll columns_to_drop_def)
qed

lemma number_rows_empty: "rows (number_rows df) = [] \<longleftrightarrow> rows df = []"
  using number_rows_shape(2) [of df] by (metis length_0_conv)

text \<open>The last loop, on a frame whose date column holds texts and missing values.\<close>

lemma number_and_date_formatted:
  assumes fmt: "\<And>c. col_date \<in> set (columns df) \<Longrightarrow> c \<in> set (cells df col_date)
             \<Longrightarrow> c = NA \<or> (\<exists>s. c = Str s)"
    and b: "number_and_date df = Inr b"
  shows "index b = index df"
    and "col_date \<in> set (columns b) \<longleftrightarrow> col_date \<in> set (columns df)"
    and "col_order_date \<in> set (columns b)
         \<longleftrightarrow> (rows b \<noteq> [] \<and> col_date \<in> set (columns b)) \<or> col_order_date \<in> set (columns df)"
    and "rows b \<noteq> [] \<and> col_date \<in> set (columns b)
         \<longrightarrow> (\<forall>ir \<in> set (rows b). cell_of (snd ir) col_order_date = Str (max_date_string b))"
proof -
  let ?n = "number_rows df"
  let ?b = "set_column ?n col_order_date (map (\<lambda>_. Str (max_date_string ?n)) (rows ?n))"
  have all: "index b = index df
    \<and> (col_date \<in> set (columns b) \<longleftrightarrow> col_date \<in> set (columns df))
    \<and> (col_order_date \<in> set (columns b)
         \<longleftrightarrow> (rows b \<noteq> [] \<and> col_date \<in> set (columns b)) \<or> col_order_date \<in> set (columns df))
    \<and> (rows b \<noteq> [] \<and> col_date \<in> set (columns b)
         \<longrightarrow> (\<forall>ir \<in> set (rows b). cell_of (snd ir) col_order_date = Str (max_date_string b)))"
  proof (cases "col_date \<in> set (columns df) \<and> rows df \<noteq> []")
    case True
    have cd: "col_date \<in> set (columns ?n)"
      using True by (simp add: number_rows_shape)
    have ne: "rows ?n \<noteq> []"
      using True by (simp add: number_rows_empty)
    have f: "c = NA \<or> (\<exists>s. c = Str s)" if "c \<in> set (cells ?n col_date)" for c
      using that fmt True by (simp add: cells_number_rows)
    have eq: "b = ?b"
      by (rule add_order_date_formatted [OF f cd ne b [unfolded number_and_date_def]])
    have m: "max_date_string ?b = max_date_string ?n"
      by (simp add: max_date_string_def cells_set_column_const)
    have ix: "index ?b = index df"
      using number_rows_shape(3) [of df] by (simp add: index_def set_column_const comp_def)
    have rows: "rows ?b \<noteq> []"
      using ne by (simp add: set_column_const)
    have cols: "set (columns ?b) = insert col_order_date (set (columns ?n))"
      by (auto simp: set_column_def)
    have val: "cell_of (snd ir) col_order_date = Str (max_date_string ?b)"
      if "ir \<in> set (rows ?b)" for ir
      using that unfolding m by (auto simp: set_column_const cell_of_update)
    show ?thesis
      unfolding eq using ix rows cols val True by (auto simp: number_rows_shape)
  next
    case False
    have skip: "col_date \<notin> set (columns ?n) \<or> rows ?n = []"
      using False by (auto simp: number_rows_shape number_rows_empty)
    have "number_and_date df = Inr ?n"
      unfolding number_and_date_def by (rule add_order_date_skipped [OF skip])
    then have eq: "b = ?n"
      using b by simp
    show ?thesis
      unfolding eq using skip False by (auto simp: number_rows_shape number_rows_empty)
  qed
  show "index b = index df"
    and "col_date \<in> set (columns b) \<longleftrightarrow> col_date \<in> set (columns df)"
    and "col_order_date \<in> set (columns b)
         \<longleftrightarrow> (rows b \<noteq> [] \<and> col_date \<in> set (columns b)) \<or> col_order_date \<in> set (columns df)"
    and "rows b \<noteq> [] \<and> col_date \<in> set (columns b)
         \<longrightarrow> (\<forall>ir \<in> set (rows b). cell_of (snd ir) col_order_date = Str (max_date_string b))"
    using all by blast+
qed

text \<open>The cells that the last loop leaves alone.\<close>

lemma cells_number_and_date:
  assumes "number_and_date df = Inr b" and "c \<noteq> col_serial" and "c \<noteq> col_order_date"
  shows "cells b c = cells df c"
proof -
  have "b = number_rows df
      \<or> (\<exists>v. b = set_column (number_rows df) col_order_date
                    (map (\<lambda>_. v) (rows (number_rows df))))"
    using assms(1) unfolding number_and_date_def by (rule add_order_date_Inr)
  then have "cells b c = cells (number_rows df) c"
    using assms(3) by (auto simp: cells_set_column_const)
  then show ?thesis
    using assms(2) by (simp add: cells_number_rows)
qed

lemmas normalizer_defs = prepare_columns_def align_columns_def number_and_date_def
  add_order_date_def number_rows_def insert_first_def drop_column_def columns_to_drop_def
  rename_def rename_col_def column_mapping_def drop_other_payment_def reset_index_def
  format_dates_def format_date_def strftime_def pad2_def reindex_def series_max_def
  is_text_def

lemma split_data_table_small: "split_data rt_example table_small = Inr segmented_small"
  by (simp add: segmenter_defs rt_example_def table_small_def sheet_def segmented_small_def
      small_columns_def)

lemma prepare_columns_segmented_small:
  "prepare_columns rt_example segmented_small = Inr normalized_small"
  by (simp add: normalizer_defs segmenter_defs rt_example_def segmented_small_def
      normalized_small_def small_columns_def normalized_columns_def)

text \<open>When the Column Normalizer returns, each bucket has gone through the last loop.\<close>

lemma prepare_columns_Inr:
  assumes "prepare_columns rt s = Inr s'"
  shows "number_and_date (without_advertisement (align_columns rt s))
           = Inr (without_advertisement s')"
    and "number_and_date (advertisment (align_columns rt s)) = Inr (advertisment s')"
    and "number_and_date (rest (align_columns rt s)) = Inr (rest s')"
  using assms by (auto simp: prepare_columns_def Let_def split: sum.splits)

lemma number_and_date_aligned:
  assumes "x \<in> {without_advertisement (align_columns rt s), advertisment (align_columns rt s),
                  rest (align_columns rt s)}"
    and "number_and_date x = Inr b"
  shows "index b = index x"
    and "col_order_date \<in> set (columns b)
         \<longleftrightarrow> (rows b \<noteq> [] \<and> col_date \<in> set (columns b))
             \<or> col_order_date \<in> set (columns (without_advertisement s))"
    and "rows b \<noteq> [] \<and> col_date \<in> set (columns b)
         \<longrightarrow> (\<forall>ir \<in> set (rows b). cell_of (snd ir) col_order_date = Str (max_date_string b))"
proof -
  have fmt: "c = NA \<or> (\<exists>s. c = Str s)"
    if "col_date \<in> set (columns x)" "c \<in> set (cells x col_date)" for c
    using assms(1) that by (rule formatted_align_columns)
  show "index b = index x"
    by (rule number_and_date_formatted(1) [OF fmt assms(2)])
  show "col_order_date \<in> set (columns b)
         \<longleftrightarrow> (rows b \<noteq> [] \<and> col_date \<in> set (columns b))
             \<or> col_order_date \<in> set (columns (without_advertisement s))"
    using number_and_date_formatted(3) [OF fmt assms(2)]
      order_date_column_align_columns [OF assms(1)] by simp
  show "rows b \<noteq> [] \<and> col_date \<in> set (columns b)
         \<longrightarrow> (\<forall>ir \<in> set (rows b). cell_of (snd ir) col_order_date = Str (max_date_string b))"
    by (rule number_and_date_formatted(4) [OF fmt assms(2)])
qed

section \<open>Rows kept by the Column Normalizer\<close>

lemma split_data_rest:
  assumes "split_data rt df = Inr s"
  shows "columns (rest s) = columns df" and "set (rows (rest s)) \<subseteq> set (rows df)"
proof -
  from assms obtain p where p: "split_79991 rt df = Inr p" and s: "rest s = snd p"
    by (rule split_data_Inr)
  from p obtain key where
    re: "snd p = df\<lparr>rows := select (map (\<lambda>k. k \<noteq> ''79991'') key) (rows df)\<rparr>"
    by (rule split_79991_Inr)
  show "columns (rest s) = columns df"
    by (simp add: s re)
  show "set (rows (rest s)) \<subseteq> set (rows df)"
    using set_select [of _ "rows df"] by (simp add: s re)
qed

lemma split_data_columns:
  assumes "split_data rt df = Inr s"
  shows "columns (without_advertisement s) = columns df"
proof -
  from assms obtain p q where
    p: "split_79991 rt df = Inr p" and q: "split_segments rt (fst p) = Inr q" and
    s: "without_advertisement s = snd q"
    by (rule split_data_Inr)
  from p obtain key where
    cand: "fst p = df\<lparr>rows := select (map (\<lambda>k. k = ''79991'') key) (rows df)\<rparr>"
    by (rule split_79991_Inr)
  show ?thesis
    using split_segments_Inr(3) [OF q] by (simp add: s cand)
qed

lemma filter_select: "filter (\<lambda>x. P (f x)) xs = select (map P (map f xs)) xs"
  unfolding select_def by (induction xs) auto

lemma no_key_drop_column:
  assumes "\<forall>ir \<in> set (rows df). k \<notin> fst ` set (snd ir)"
  shows "\<forall>ir \<in> set (rows (drop_column c df)). k \<notin> fst ` set (snd ir)"
  using assms by (auto simp: drop_column_def AList.delete_eq)

lemma no_key_fold_drop_column:
  assumes "\<forall>ir \<in> set (rows df). k \<notin> fst ` set (snd ir)"
  shows "\<forall>ir \<in> set (rows (fold drop_column cs df)). k \<notin> fst ` set (snd ir)"
  using assms
proof (induction cs arbitrary: df)
  case Nil
  then show ?case by simp
next
  case (Cons c cs)
  show ?case
    using Cons.IH [OF no_key_drop_column [OF Cons.prems]] by simp
qed

lemma cells_fold_drop_column:
  "c' \<notin> set cs \<Longrightarrow> cells (fold drop_column cs df) c' = cells df c'"
  by (induction cs arbitrary: df) (simp_all add: cells_drop_column)

text \<open>
  The renaming sends two names to one only when one of them is already an output name.
\<close>

lemma rename_col_inj:
  assumes "k \<notin> set output_columns" and "c \<notin> set output_columns"
    and "rename_col k = rename_col c"
  shows "k = c"
  using assms
  by (auto simp: rename_col_def column_mapping_def output_columns_def split: if_splits)

lemma rename_col_written:
  assumes "c \<notin> set output_columns"
  shows "rename_col c \<noteq> col_serial" and "rename_col c \<noteq> col_order_date"
    and "rename_col c = col_date \<longleftrightarrow> c = ''InstallmentDate''"
    and "rename_col c = col_product \<longleftrightarrow> c = ''InstallmentProducts''"
  using assms
  by (auto simp: rename_col_def column_mapping_def output_columns_def split: if_splits)

lemma cell_of_renamed:
  assumes "\<forall>k \<in> fst ` set r. k \<notin> set output_columns" and "c \<notin> set output_columns"
  shows "cell_of (map (\<lambda>kv. (rename_col (fst kv), snd kv)) r) (rename_col c) = cell_of r c"
  using assms(1)
proof (induction r)
  case Nil
  then show ?case by (simp add: cell_of_def)
next
  case (Cons kv r)
  have ih: "cell_of (map (\<lambda>kv. (rename_col (fst kv), snd kv)) r) (rename_col c) = cell_of r c"
    using Cons by simp
  have k: "fst kv \<notin> set output_columns"
    using Cons.prems by simp
  show ?case
  proof (cases "fst kv = c")
    case True
    then show ?thesis
      by (cases kv) (simp add: cell_of_def)
  next
    case False
    then have "rename_col (fst kv) \<noteq> rename_col c"
      using rename_col_inj [OF k assms(2)] by blast
    then show ?thesis
      using False ih by (cases kv) (simp add: cell_of_def)
  qed
qed

lemma cells_rename:
  assumes "\<forall>ir \<in> set (rows df). \<forall>k \<in> fst ` set (snd ir). k \<notin> set output_columns"
    and "c \<notin> set output_columns"
  shows "cells (rename df) (rename_col c) = cells df c"
  using assms by (simp add: cells_def rename_def comp_def cell_of_renamed)

lemma cells_drop_other_payment:
  "cells (drop_other_payment df) c
     = (if col_product \<in> set (columns df)
        then select (map (\<lambda>x. x \<noteq> Str ''Other Payment'') (cells df col_product)) (cells df c)
        else cells df c)"
proof (cases "col_product \<in> set (columns df)")
  case True
  let ?kept = "filter (\<lambda>ir. cell_of (snd ir) col_product \<noteq> Str ''Other Payment'') (rows df)"
  have "cells (drop_other_payment df) c
      = map (\<lambda>vx. cell_of (snd (snd vx)) c) (zip [0..<length ?kept] ?kept)"
    using True by (simp add: drop_other_payment_def reset_index_def cells_def zip_map2 comp_def
        case_prod_beta)
  also have "\<dots> = map (\<lambda>ir. cell_of (snd ir) c) ?kept"
    by (rule map_zip_snd) simp
  also have "?kept = select (map (\<lambda>x. x \<noteq> Str ''Other Payment'')
                             (map (\<lambda>ir. cell_of (snd ir) col_product) (rows df))) (rows df)"
    by (rule filter_select)
  finally show ?thesis
    using True by (simp add: map_select cells_def)
next
  case False
  then show ?thesis
    by (simp add: drop_other_payment_def)
qed

lemma product_column_renamed:
  assumes "col_product \<notin> set cs"
  shows "col_product \<in> set (map rename_col (fold removeAll columns_to_drop cs))
      \<longleftrightarrow> ''InstallmentProducts'' \<in> set cs"
proof
  assume "col_product \<in> set (map rename_col (fold removeAll columns_to_drop cs))"
  then obtain c where c: "c \<in> set cs" "rename_col c = col_product"
    by (auto simp: set_fold_removeAll)
  then have "c = ''InstallmentProducts''"
    using assms by (auto simp: rename_col_def column_mapping_def split: if_splits)
  then show "''InstallmentProducts'' \<in> set cs"
    using c by simp
next
  assume "''InstallmentProducts'' \<in> set cs"
  then have "''InstallmentProducts'' \<in> set (fold removeAll columns_to_drop cs)"
    by (simp add: set_fold_removeAll columns_to_drop_def)
  moreover have "rename_col ''InstallmentProducts'' = col_product"
    by (simp add: rename_col_def column_mapping_def)
  ultimately show "col_product \<in> set (map rename_col (fold removeAll columns_to_drop cs))"
    by force
qed

lemma cells_format_dates_other:
  "c \<noteq> col_date \<Longrightarrow> cells (format_dates rt df) c = cells df c"
  by (simp add: format_dates_def set_column_def set_cells_map cells_def comp_def cell_of_update)

lemma cell_of_absent:
  assumes "c \<notin> fst ` set r"
  shows "cell_of r c = NA"
proof -
  have "map_of r c = None"
    using assms by (simp only: map_of_eq_None_iff not_False_eq_True)
  then show ?thesis
    by (simp add: cell_of_def)
qed

text \<open>
  The rest bucket before the last loop: in a column that is only renamed, the cells of
  the rows that are no Other Payment, in their order. Every row holds exactly the
  columns of its frame, and no column bears an output name before the renaming.
\<close>

lemma cells_rest_cleaned:
  assumes wf: "\<forall>ir \<in> set (rows df). map fst (snd ir) = columns df"
    and out: "set (columns df) \<inter> set output_columns = {}"
    and c: "c \<in> set (columns df)" "c \<notin> set columns_to_drop"
  shows "cells (drop_other_payment (rename (fold drop_column columns_to_drop df))) (rename_col c)
      = map (\<lambda>ir. cell_of (snd ir) c) (filter (\<lambda>ir. \<not> other_payment ir) (rows df))"
proof -
  let ?d = "fold drop_column columns_to_drop df"
  have cout: "c \<notin> set output_columns"
    using out c(1) by blast
  have keys: "fst ` set (snd ir) = set (columns df)" if "ir \<in> set (rows df)" for ir
    using wf that by (metis list.set_map)
  have nokey: "\<forall>ir \<in> set (rows df). k \<notin> fst ` set (snd ir)" if "k \<in> set output_columns" for k
    using keys out that by blast
  have nokeys: "\<forall>ir \<in> set (rows ?d). \<forall>k \<in> fst ` set (snd ir). k \<notin> set output_columns"
    using no_key_fold_drop_column [OF nokey] by blast
  have pout: "''InstallmentProducts'' \<notin> set output_columns"
    by (simp add: output_columns_def)
  have pren: "rename_col ''InstallmentProducts'' = col_product"
    by (simp add: rename_col_def column_mapping_def)
  have cc: "cells (rename ?d) (rename_col c) = cells df c"
    using cells_rename [OF nokeys cout] cells_fold_drop_column [OF c(2)] by simp
  have pd: "''InstallmentProducts'' \<notin> set columns_to_drop"
    by (simp add: columns_to_drop_def)
  have cp: "cells (rename ?d) col_product = cells df ''InstallmentProducts''"
    using cells_rename [OF nokeys pout] cells_fold_drop_column [OF pd, of df]
    by (simp only: pren)
  have pcol: "col_product \<notin> set (columns df)"
    using out by (auto simp: output_columns_def)
  have col: "col_product \<in> set (columns (rename ?d))
      \<longleftrightarrow> ''InstallmentProducts'' \<in> set (columns df)"
    using product_column_renamed [OF pcol] by (simp add: rename_shape fold_drop_column_shape)
  have flt: "map (\<lambda>ir. cell_of (snd ir) c) (filter (\<lambda>ir. \<not> other_payment ir) (rows df))
      = select (map (\<lambda>x. x \<noteq> Str ''Other Payment'') (cells df ''InstallmentProducts''))
          (cells df c)"
    using filter_select [of "\<lambda>x. x \<noteq> Str ''Other Payment''"
        "\<lambda>ir. cell_of (snd ir) ''InstallmentProducts''" "rows df"]
    by (simp add: other_payment_def cells_def map_select)
  show ?thesis
  proof (cases "''InstallmentProducts'' \<in> set (columns df)")
    case True
    then show ?thesis
      using col cc cp flt by (simp add: cells_drop_other_payment)
  next
    case False
    have "\<not> other_payment ir" if "ir \<in> set (rows df)" for ir
      using cell_of_absent [of "''InstallmentProducts''" "snd ir"] keys [OF that] False
      by (simp add: other_payment_def)
    then have "filter (\<lambda>ir. \<not> other_payment ir) (rows df) = rows df"
      by (simp add: filter_id_conv)
    then have "map (\<lambda>ir. cell_of (snd ir) c) (filter (\<lambda>ir. \<not> other_payment ir) (rows df))
        = cells df c"
      by (simp add: cells_def)
    then show ?thesis
      using False col cc by (simp add: cells_drop_other_payment)
  qed
qed

lemma index_aligned:
  "index (without_advertisement (align_columns rt s)) = index (without_advertisement s)"
  "index (advertisment (align_columns rt s)) = index (advertisment s)"
  by (simp_all add: align_columns_def Let_def reindex_shape format_dates_shape rename_shape
      fold_drop_column_shape)

text \<open>The same column of the rest bucket once the buckets are aligned.\<close>

lemma cells_rest_aligned:
  assumes "\<forall>ir \<in> set (rows (rest s)). map fst (snd ir) = columns (rest s)"
    and "set (columns (rest s)) \<inter> set output_columns = {}"
    and "columns (without_advertisement s) = columns (rest s)"
    and "c \<in> set (columns (rest s))" "c \<notin> set columns_to_drop" "c \<noteq> ''InstallmentDate''"
  shows "cells (rest (align_columns rt s)) (rename_col c)
      = map (\<lambda>ir. cell_of (snd ir) c) (filter (\<lambda>ir. \<not> other_payment ir) (rows (rest s)))"
proof -
  let ?re = "drop_other_payment (rename (fold drop_column columns_to_drop (rest s)))"
  let ?all = "map rename_col (fold removeAll columns_to_drop (columns (rest s)))"
  have cout: "c \<notin> set output_columns"
    using assms(2,4) by blast
  have nd: "rename_col c \<noteq> col_date"
    using rename_col_written(3) [OF cout] assms(6) by simp
  have mem: "rename_col c \<in> set ?all"
    using assms(4,5) by (simp add: set_fold_removeAll)
  have cols: "columns (format_dates rt ?re) = ?all"
    by (simp add: format_dates_shape drop_other_payment_def reset_index_def rename_shape
        fold_drop_column_shape)
  have "rest (align_columns rt s) = reindex ?all (format_dates rt ?re)"
    by (simp add: align_columns_def Let_def format_dates_shape rename_shape
        fold_drop_column_shape assms(3))
  then have "cells (rest (align_columns rt s)) (rename_col c)
      = cells (format_dates rt ?re) (rename_col c)"
    using mem cols by (simp add: cells_reindex)
  also have "\<dots> = cells ?re (rename_col c)"
    by (rule cells_format_dates_other [OF nd])
  also have "\<dots> = map (\<lambda>ir. cell_of (snd ir) c)
                     (filter (\<lambda>ir. \<not> other_payment ir) (rows (rest s)))"
    by (rule cells_rest_cleaned [OF assms(1,2,4,5)])
  finally show ?thesis .
qed

section \<open>Summary\<close>

lemma column_sum_cells:
  "column_sum rt df c = Inr t \<Longrightarrow> sum_cells (series_sum rt) (cells df c) = Inr t"
  by (auto simp: column_sum_def column_def cells_def split: if_splits)

lemma keys_dict_add: "fst ` set (dict_add rt k v d) = insert k (fst ` set d)"
  by (induction d) auto

lemma accumulate_not_excluded:
  assumes "\<forall>e \<in> set d. \<not> excluded_account (fst (fst e))"
  shows "\<forall>e \<in> set (accumulate rt entry d). \<not> excluded_account (fst (fst e))"
proof (cases "excluded_account (fst (fst entry))")
  case True
  then show ?thesis
    using assms by (simp add: accumulate_def)
next
  case False
  have "fst ` set (accumulate rt entry d) = insert (fst entry) (fst ` set d)"
    using False by (simp add: accumulate_def keys_dict_add)
  then have k: "fst e = fst entry \<or> fst e \<in> fst ` set d"
    if "e \<in> set (accumulate rt entry d)" for e
    using that by (metis image_eqI insert_iff)
  show ?thesis
  proof
    fix e assume "e \<in> set (accumulate rt entry d)"
    then consider "fst e = fst entry" | e' where "e' \<in> set d" "fst e = fst e'"
      using k by blast
    then show "\<not> excluded_account (fst (fst e))"
    proof cases
      case 1
      then show ?thesis
        using False by simp
    next
      case 2
      then show ?thesis
        using assms by simp
    qed
  qed
qed

lemma fold_accumulate_not_excluded:
  assumes "\<forall>e \<in> set d. \<not> excluded_account (fst (fst e))"
  shows "\<forall>e \<in> set (fold (accumulate rt) rd d). \<not> excluded_account (fst (fst e))"
  using assms
proof (induction rd arbitrary: d)
  case Nil
  then show ?case by simp
next
  case (Cons entry rd)
  show ?case
    using Cons.IH [OF accumulate_not_excluded [OF Cons.prems]] by simp
qed

text \<open>An account that is the number 70001 or 70100 is no key of the dictionary.\<close>

lemma revenue_summary_not_excluded:
  assumes "revenue_summary rt df = Inr revenue"
  shows "\<forall>e \<in> set revenue. \<not> excluded_account (fst (fst e))"
proof (cases "length (rows df) > 0")
  case True
  then obtain rd where "revenue = fold (accumulate rt) rd []"
    using assms by (auto simp: revenue_summary_def split: sum.splits)
  then show ?thesis
    using fold_accumulate_not_excluded [of "[]" rt rd] by simp
next
  case False
  then show ?thesis
    using assms by (simp add: revenue_summary_def)
qed

lemma create_excel_summary_Inr:
  assumes "create_excel_summary rt s = Inr summary"
  obtains cd revenue entries t where
    "command_date (rest s) = Inr cd"
    "revenue_summary rt (rest s) = Inr revenue"
    "map (revenue_row rt cd) (filter (\<lambda>entry. snd entry > 0) revenue) = map Inr entries"
    "t = float_sum (series_sum rt) (amounts (cells (rest s) col_credit))"
    "summary = blank_row # entries @ [total_row rt cd 0 t]"
proof -
  from assms obtain cd where cd: "command_date (rest s) = Inr cd"
    by (auto simp: create_excel_summary_def split: sum.splits)
  from assms cd obtain revenue where rv: "revenue_summary rt (rest s) = Inr revenue"
    by (auto simp: create_excel_summary_def split: sum.splits)
  from assms cd rv obtain entries where
    en: "collect (map (revenue_row rt cd) (filter (\<lambda>entry. snd entry > 0) revenue)) = Inr entries"
    by (auto simp: create_excel_summary_def split: sum.splits)
  from assms cd rv en obtain t where
    t: "(if length (rows (rest s)) > 0 then column_sum rt (rest s) col_credit else Inr 0) = Inr t"
    and sm: "summary = blank_row # entries @ [total_row rt cd 0 t]"
    by (auto simp: create_excel_summary_def split: sum.splits)
  have "t = float_sum (series_sum rt) (amounts (cells (rest s) col_credit))"
  proof (cases "length (rows (rest s)) > 0")
    case True
    then have "sum_cells (series_sum rt) (cells (rest s) col_credit) = Inr t"
      using t column_sum_cells by simp
    then show ?thesis
      by (rule sum_cells_amounts)
  next
    case False
    then show ?thesis
      using t by (simp add: cells_def amounts_def float_sum_def)
  qed
  then show thesis
    using that [OF cd rv collect_Inr [OF en] _ sm] by simp
qed

lemma format_thousands_zero: "format_thousands 0 = ''0''"
  by (simp add: format_thousands_def round_half_even_def digit_char_def)

lemmas summary_defs = create_excel_summary_def command_date_def column_def truthy_def
  revenue_summary_def revenue_data_def gt_zero_def select_def group_key_def group_keys_def
  key_le_def accumulate_def excluded_account_def revenue_row_def account_text_def truncate_def
  format_thousands_def round_half_even_def total_row_def py_str_def column_sum_def
  sum_cells_def float_sum_def cell_of_def isna_def str_of_int_def digit_char_def Let_def

lemma create_excel_summary_excluded:
  "create_excel_summary rt_example buckets_excluded = Inr summary_excluded"
  by (simp add: summary_defs buckets_excluded_def summary_excluded_def summary_columns_def
      sheet_def rt_example_def)

text \<open>The table with the text account 70001, step by step.\<close>

lemma split_data_table_text_account:
  "split_data rt_example table_text_account = Inr segmented_text_account"
  by (simp add: segmenter_defs rt_example_def table_text_account_def sheet_def
      segmented_text_account_def raw_columns_def)

lemma prepare_columns_table_text_account:
  "prepare_columns rt_example segmented_text_account = Inr normalized_text_account"
  by (simp add: normalizer_defs segmenter_defs rt_example_def segmented_text_account_def
      normalized_text_account_def raw_columns_def full_columns_def)

lemma create_excel_summary_text_account:
  "create_excel_summary rt_example normalized_text_account = Inr summary_text_account"
  by (simp add: summary_defs normalized_text_account_def full_columns_def
      summary_text_account_def rt_example_def blank_row_def)

section \<open>Balance Validator\<close>







section \<open>Segmenter\<close>

text \<open>
  Claim C4. The grouping key of the Segmenter is built as the specification says: the
  empty text and the texts nan and NaN of the reference field count as missing, a
  missing value takes the nearest non-missing value before it in row order, and the
  result is coerced to the text of an integer. The rows whose key is 79991 are the
  candidates, which make up the advertisement and without-advertisement buckets; all
  other rows make up the rest bucket, in their order.
\<close>

theorem grouping_key_decides_candidates:
  assumes "split_data rt df = Inr s"
  shows "block_key rt df = Inr (map (grouping_key rt df) [0..<length (rows df)])
    \<and> rows (rest s)
        = select (map (\<lambda>i. grouping_key rt df i \<noteq> ''79991'') [0..<length (rows df)]) (rows df)
    \<and> mset (index (advertisment s)) + mset (index (without_advertisement s))
        = mset (map fst
            (select (map (\<lambda>i. grouping_key rt df i = ''79991'') [0..<length (rows df)])
               (rows df)))"
proof -
  from assms obtain p q where
    p: "split_79991 rt df = Inr p" and q: "split_segments rt (fst p) = Inr q" and
    s: "without_advertisement s = snd q" "advertisment s = fst q" "rest s = snd p"
    by (rule split_data_Inr)
  from p obtain key where
    key: "block_key rt df = Inr key" and
    cand: "fst p = df\<lparr>rows := select (map (\<lambda>k. k = ''79991'') key) (rows df)\<rparr>" and
    re: "snd p = df\<lparr>rows := select (map (\<lambda>k. k \<noteq> ''79991'') key) (rows df)\<rparr>"
    by (rule split_79991_Inr)
  note k = block_key_grouping_key [OF key]
  have m1: "map (\<lambda>k. k \<noteq> ''79991'') key
      = map (\<lambda>i. grouping_key rt df i \<noteq> ''79991'') [0..<length (rows df)]"
    by (subst k) (simp add: comp_def)
  have m2: "map (\<lambda>k. k = ''79991'') key
      = map (\<lambda>i. grouping_key rt df i = ''79991'') [0..<length (rows df)]"
    by (subst k) (simp add: comp_def)
  define code where "code = coerced rt (fst p)"
  define upd where "upd = set_cells col_product_ref code (rows (fst p))"
  have lcode: "length code = length (rows (fst p))"
    by (simp add: code_def coerced_def)
  have lhas: "length (seg_has_4118 code) = length upd"
    by (simp add: length_seg_has_4118 upd_def set_cells_def lcode)
  have ad: "rows (fst q) = select (seg_has_4118 code) upd"
    and wa: "rows (snd q) = select (map Not (seg_has_4118 code)) upd"
    using split_segments_Inr(4,5) [OF q] by (simp_all add: code_def upd_def)
  have "mset (map fst (rows (fst q))) + mset (map fst (rows (snd q)))
          = mset (map fst (rows (fst p)))"
    unfolding wa ad
    using mset_map_select [OF lhas, of fst] by (simp add: upd_def map_fst_set_cells lcode)
  then have c: "mset (index (advertisment s)) + mset (index (without_advertisement s))
      = mset (map fst (select (map (\<lambda>k. k = ''79991'') key) (rows df)))"
    by (simp add: index_def s cand)
  have bk: "block_key rt df = Inr (map (grouping_key rt df) [0..<length (rows df)])"
    using key k by simp
  show ?thesis
    using bk c unfolding m2 by (simp add: s re m1)
qed

lemma split_data_table_text: "split_data rt_example table_text = Inr (segmented table_text)"
  unfolding segmented_def by (simp add: segmenter_defs example_defs)

text \<open>
  A table of texts. The keys of rows 1 and 2, an empty text and the text nan, inherit
  the 79991 of row 0; the key NaN of row 4 inherits the 5 of row 3; the key abc of row
  5 is no number. Rows 0, 1 and 2 are the candidates, rows 3, 4 and 5 the rest.
\<close>

theorem grouping_key_decides_candidates_witness:
  "split_data rt_example table_text = Inr (segmented table_text)
   \<and> cells table_text col_payment_ref
       = [Str ''79991'', Str '''', Str ''nan'', Str ''5'', Str ''NaN'', Str ''abc'']
   \<and> map (grouping_key rt_example table_text) [0..<length (rows table_text)]
       = [''79991'', ''79991'', ''79991'', ''5'', ''5'', ''<NA>'']
   \<and> block_key rt_example table_text
       = Inr (map (grouping_key rt_example table_text) [0..<length (rows table_text)])
   \<and> rows (rest (segmented table_text))
       = select (map (\<lambda>i. grouping_key rt_example table_text i \<noteq> ''79991'')
                  [0..<length (rows table_text)]) (rows table_text)
   \<and> index (rest (segmented table_text)) = [3, 4, 5]
   \<and> index (advertisment (segmented table_text)) = [0, 1]
   \<and> index (without_advertisement (segmented table_text)) = [2]
   \<and> mset (index (advertisment (segmented table_text)))
        + mset (index (without_advertisement (segmented table_text)))
       = mset (map fst
           (select (map (\<lambda>i. grouping_key rt_example table_text i = ''79991'')
                      [0..<length (rows table_text)]) (rows table_text)))"
proof -
  have c: "cells table_text col_payment_ref
       = [Str ''79991'', Str '''', Str ''nan'', Str ''5'', Str ''NaN'', Str ''abc'']"
    by (simp add: cells_def cell_of_def example_defs)
  have k: "map (grouping_key rt_example table_text) [0..<length (rows table_text)]
       = [''79991'', ''79991'', ''79991'', ''5'', ''5'', ''<NA>'']"
    by (simp add: grouping_key_def inherited_key_def key_missing_def numeric_value_def
        integer_text_def cell_of_def str_of_int_def digit_char_def example_defs upt_rec)
  have i: "index (rest (segmented table_text)) = [3, 4, 5]"
    "index (advertisment (segmented table_text)) = [0, 1]"
    "index (without_advertisement (segmented table_text)) = [2]"
    unfolding segmented_def by (simp_all add: segmenter_defs example_defs)
  show ?thesis
    using grouping_key_decides_candidates [OF split_data_table_text] split_data_table_text
      c k i
    by simp
qed

text \<open>
  Claim C2. Among the candidate rows, in their order, a segment is a maximal run that
  starts at a row whose product reference code is missing after numeric coercion (the
  first run may start without one). When any row of a segment has the code 4118, every
  row of the segment is placed in the advertisement bucket, the rows without 4118
  included; the rows of all other segments are placed in the without-advertisement
  bucket. Both buckets keep the order of the rows.
\<close>

theorem marked_segments_go_to_advertisement:
  assumes "split_79991 rt df = Inr (cand, r)" and "split_data rt df = Inr s"
  shows "rows (advertisment s)
      = select (map (marked (coerced rt cand)) [0..<length (rows cand)])
          (set_cells col_product_ref (coerced rt cand) (rows cand))
    \<and> rows (without_advertisement s)
      = select (map (\<lambda>a. \<not> marked (coerced rt cand) a) [0..<length (rows cand)])
          (set_cells col_product_ref (coerced rt cand) (rows cand))"
proof -
  from assms(2) obtain p q where
    p: "split_79991 rt df = Inr p" and q: "split_segments rt (fst p) = Inr q" and
    s: "without_advertisement s = snd q" "advertisment s = fst q"
    by (rule split_data_Inr)
  have cand: "fst p = cand"
    using p assms(1) by auto
  have len: "length (coerced rt cand) = length (rows cand)"
    by (simp add: coerced_def)
  have m: "seg_has_4118 (coerced rt cand) = map (marked (coerced rt cand)) [0..<length (rows cand)]"
    using seg_has_4118_marked [of "coerced rt cand"] by (simp add: len)
  have n: "map Not (seg_has_4118 (coerced rt cand))
      = map (\<lambda>a. \<not> marked (coerced rt cand) a) [0..<length (rows cand)]"
    unfolding m by simp
  have "rows (fst q) = select (map (marked (coerced rt cand)) [0..<length (rows cand)])
          (set_cells col_product_ref (coerced rt cand) (rows cand))"
    using split_segments_Inr(4) [OF q] unfolding cand m .
  moreover have "rows (snd q)
      = select (map (\<lambda>a. \<not> marked (coerced rt cand) a) [0..<length (rows cand)])
          (set_cells col_product_ref (coerced rt cand) (rows cand))"
    using split_segments_Inr(5) [OF q] unfolding cand n .
  ultimately show ?thesis
    unfolding s by (rule conjI)
qed

lemma split_79991_table_five:
  "split_79991 rt_example table_five
     = Inr (candidates table_five, snd (projr (split_79991 rt_example table_five)))"
  unfolding candidates_def by (simp add: segmenter_defs example_defs)

text \<open>
  In the table of five rows the candidates are rows 0, 1 and 2. Row 0 has no code and
  starts the segment of row 1, which holds 4118: both are advertisement rows. Row 2
  has no code and starts a segment of its own.
\<close>

theorem marked_segments_go_to_advertisement_witness:
  "split_79991 rt_example table_five
     = Inr (candidates table_five, snd (projr (split_79991 rt_example table_five)))
   \<and> split_data rt_example table_five = Inr (segmented table_five)
   \<and> index (candidates table_five) = [0, 1, 2]
   \<and> coerced rt_example (candidates table_five) = [NA, Num 4118, NA]
   \<and> map (marked (coerced rt_example (candidates table_five))) [0..<3] = [True, True, False]
   \<and> rows (advertisment (segmented table_five))
      = select (map (marked (coerced rt_example (candidates table_five)))
                  [0..<length (rows (candidates table_five))])
          (set_cells col_product_ref (coerced rt_example (candidates table_five))
             (rows (candidates table_five)))
   \<and> rows (without_advertisement (segmented table_five))
      = select (map (\<lambda>a. \<not> marked (coerced rt_example (candidates table_five)) a)
                  [0..<length (rows (candidates table_five))])
          (set_cells col_product_ref (coerced rt_example (candidates table_five))
             (rows (candidates table_five)))
   \<and> index (advertisment (segmented table_five)) = [0, 1]
   \<and> index (without_advertisement (segmented table_five)) = [2]"
proof -
  have i: "index (candidates table_five) = [0, 1, 2]"
    unfolding candidates_def by (simp add: segmenter_defs example_defs)
  have c: "coerced rt_example (candidates table_five) = [NA, Num 4118, NA]"
    unfolding candidates_def by (simp add: segmenter_defs example_defs)
  have m: "map (marked [NA, Num 4118, NA]) [0..<3] = [True, True, False]"
    by (simp add: marked_def same_segment_def isna_def upt_rec)
  have a: "index (advertisment (segmented table_five)) = [0, 1]"
    unfolding segmented_def by (simp add: segmenter_defs example_defs)
  have w: "index (without_advertisement (segmented table_five)) = [2]"
    unfolding segmented_def by (simp add: segmenter_defs example_defs)
  show ?thesis
    using marked_segments_go_to_advertisement [OF split_79991_table_five split_data_table_five]
      split_79991_table_five split_data_table_five i a w m
    unfolding c by simp
qed

text \<open>
  Claim C10. Segmentation leaves the columns of the three buckets as they are in the
  table. Every row of the rest bucket is a row of the table, unchanged. Every row of
  the advertisement and without-advertisement buckets is a row of the table in which
  the product reference field is overwritten with its numeric coercion (a number
  stays, a text that reads as a number becomes that number, and any other value
  becomes missing) and every other field keeps its value.
\<close>

theorem segmentation_changes_only_product_reference:
  assumes "split_data rt df = Inr s"
  shows "columns (without_advertisement s) = columns df
    \<and> columns (advertisment s) = columns df
    \<and> columns (rest s) = columns df
    \<and> set (rows (rest s)) \<subseteq> set (rows df)
    \<and> (\<forall>ir' \<in> set (rows (advertisment s)) \<union> set (rows (without_advertisement s)).
          \<exists>ir \<in> set (rows df).
            fst ir' = fst ir
            \<and> cell_of (snd ir') col_product_ref
                = numeric_coercion rt (cell_of (snd ir) col_product_ref)
            \<and> (\<forall>c. c \<noteq> col_product_ref \<longrightarrow> cell_of (snd ir') c = cell_of (snd ir) c))"
proof -
  from assms obtain p q where
    p: "split_79991 rt df = Inr p" and q: "split_segments rt (fst p) = Inr q" and
    s: "without_advertisement s = snd q" "advertisment s = fst q" "rest s = snd p"
    by (rule split_data_Inr)
  from p obtain key where
    cand: "fst p = df\<lparr>rows := select (map (\<lambda>k. k = ''79991'') key) (rows df)\<rparr>" and
    re: "snd p = df\<lparr>rows := select (map (\<lambda>k. k \<noteq> ''79991'') key) (rows df)\<rparr>"
    by (rule split_79991_Inr)
  note sq = split_segments_Inr [OF q]
  have cols: "columns (without_advertisement s) = columns df"
    "columns (advertisment s) = columns df" "columns (rest s) = columns df"
    using sq(2,3) by (simp_all add: s cand re)
  have sub: "set (rows (rest s)) \<subseteq> set (rows df)"
    using set_select [of _ "rows df"] by (simp add: s re)
  have candsub: "set (rows (fst p)) \<subseteq> set (rows df)"
    using set_select [of _ "rows df"] by (simp add: cand)
  have upd: "\<exists>ir \<in> set (rows df).
            fst ir' = fst ir
            \<and> cell_of (snd ir') col_product_ref
                = numeric_coercion rt (cell_of (snd ir) col_product_ref)
            \<and> (\<forall>c. c \<noteq> col_product_ref \<longrightarrow> cell_of (snd ir') c = cell_of (snd ir) c)"
    if "ir' \<in> set (rows (advertisment s)) \<union> set (rows (without_advertisement s))" for ir'
  proof -
    have "ir' \<in> set (set_cells col_product_ref (coerced rt (fst p)) (rows (fst p)))"
      using that sq(4,5) set_select [of _ "set_cells col_product_ref (coerced rt (fst p)) (rows (fst p))"]
      by (auto simp: s)
    then obtain ir where ir: "ir \<in> set (rows (fst p))"
      and eq: "ir' = (fst ir, AList.update col_product_ref
                             (to_numeric rt (cell_of (snd ir) col_product_ref)) (snd ir))"
      unfolding set_cells_coerced by auto
    have "ir \<in> set (rows df)"
      using ir candsub by auto
    then show ?thesis
      using eq by (intro bexI [of _ ir]) (simp_all add: cell_of_update to_numeric_coercion)
  qed
  show ?thesis
    using cols sub upd by blast
qed

text \<open>
  In the table of texts the candidates are rows 0, 1 and 2, with the product
  references abc, 4118 as a text, and none. In the buckets they read missing, the
  number 4118, and missing; the keys of these rows stay the texts they were. The rest
  bucket holds rows 3, 4 and 5 as they are in the table.
\<close>

theorem segmentation_changes_only_product_reference_witness:
  "split_data rt_example table_text = Inr (segmented table_text)
   \<and> columns (without_advertisement (segmented table_text)) = columns table_text
   \<and> columns (advertisment (segmented table_text)) = columns table_text
   \<and> columns (rest (segmented table_text)) = columns table_text
   \<and> set (rows (rest (segmented table_text))) \<subseteq> set (rows table_text)
   \<and> rows (rest (segmented table_text)) = drop 3 (rows table_text)
   \<and> cells table_text col_product_ref
       = [Str ''abc'', Str ''4118'', NA, Str ''70001'', Str ''300'', Str ''x'']
   \<and> map (numeric_coercion rt_example) [Str ''abc'', Str ''4118'', NA] = [NA, Num 4118, NA]
   \<and> cells (advertisment (segmented table_text)) col_product_ref = [NA, Num 4118]
   \<and> cells (without_advertisement (segmented table_text)) col_product_ref = [NA]
   \<and> cells (advertisment (segmented table_text)) col_payment_ref = [Str ''79991'', Str '''']
   \<and> cells (without_advertisement (segmented table_text)) col_payment_ref = [Str ''nan'']
   \<and> list_all (\<lambda>ir'. list_ex (\<lambda>ir. fst ir' = fst ir
                   \<and> cell_of (snd ir') col_product_ref
                       = numeric_coercion rt_example (cell_of (snd ir) col_product_ref)
                   \<and> cell_of (snd ir') col_payment_ref = cell_of (snd ir) col_payment_ref)
                 (rows table_text))
        (rows (advertisment (segmented table_text))
           @ rows (without_advertisement (segmented table_text)))"
proof -
  have r: "rows (rest (segmented table_text)) = drop 3 (rows table_text)"
    unfolding segmented_def by (simp add: segmenter_defs example_defs)
  have t: "cells table_text col_product_ref
       = [Str ''abc'', Str ''4118'', NA, Str ''70001'', Str ''300'', Str ''x'']"
    by (simp add: cells_def cell_of_def example_defs)
  have n: "map (numeric_coercion rt_example) [Str ''abc'', Str ''4118'', NA]
       = [NA, Num 4118, NA]"
    by (simp add: numeric_coercion_def numeric_value_def rt_example_def)
  have a: "cells (advertisment (segmented table_text)) col_product_ref = [NA, Num 4118]"
    "cells (without_advertisement (segmented table_text)) col_product_ref = [NA]"
    "cells (advertisment (segmented table_text)) col_payment_ref = [Str ''79991'', Str '''']"
    "cells (without_advertisement (segmented table_text)) col_payment_ref = [Str ''nan'']"
    unfolding segmented_def cells_def by (simp_all add: segmenter_defs example_defs)
  have l: "list_all (\<lambda>ir'. list_ex (\<lambda>ir. fst ir' = fst ir
                   \<and> cell_of (snd ir') col_product_ref
                       = numeric_coercion rt_example (cell_of (snd ir) col_product_ref)
                   \<and> cell_of (snd ir') col_payment_ref = cell_of (snd ir) col_payment_ref)
                 (rows table_text))
        (rows (advertisment (segmented table_text))
           @ rows (without_advertisement (segmented table_text)))"
    unfolding segmented_def
    by (simp add: segmenter_defs example_defs numeric_coercion_def numeric_value_def)
  show ?thesis
    using segmentation_changes_only_product_reference [OF split_data_table_text]
      split_data_table_text r t n a l
    by simp
qed

end
